theory Spec2Isabelle
  imports Complex_Main "HOL-Library.Word" "HOL-Library.Signed_Division"
begin

section \<open>The refinery: merge queue processing agent of a rig\<close>

text \<open>
  This theory embeds \<^verbatim>\<open>internal/refinery\<close> (types and manager). Go strings are byte
  sequences, modelled as \<^typ>\<open>string\<close>; Go's \<^verbatim>\<open>int\<close> is the 64-bit word of the
  supported platforms; a \<^verbatim>\<open>time.Time\<close> is modelled by the instant it denotes, in
  nanoseconds since the Unix epoch (its location and monotonic reading are not modelled).
\<close>

subsection \<open>Data model (types.go)\<close>

type_synonym go_int = "64 word"
type_synonym time = int

type_synonym State = string

definition StateStopped :: State where "StateStopped = ''stopped''"
definition StateRunning :: State where "StateRunning = ''running''"
definition StatePaused :: State where "StatePaused = ''paused''"

type_synonym MRStatus = string

definition MRPending :: MRStatus where "MRPending = ''pending''"
definition MRProcessing :: MRStatus where "MRProcessing = ''processing''"
definition MRMerged :: MRStatus where "MRMerged = ''merged''"
definition MRFailed :: MRStatus where "MRFailed = ''failed''"
definition MRSkipped :: MRStatus where "MRSkipped = ''skipped''"

record MergeRequest =
  ID :: string
  Branch :: string
  Worker :: string
  IssueID :: string
  SwarmID :: string
  TargetBranch :: string
  CreatedAt :: time
  Status :: MRStatus
  Error :: string

record RefineryStats =
  TotalMerged :: go_int
  TotalFailed :: go_int
  TotalSkipped :: go_int
  TodayMerged :: go_int
  TodayFailed :: go_int

record Refinery =
  RigName :: string
  State :: State
  PID :: go_int
  StartedAt :: "time option"
  CurrentMR :: "MergeRequest option"
  LastMergeAt :: "time option"
  Stats :: RefineryStats

record QueueItem =
  Position :: int
  MR :: MergeRequest             \<comment> \<open>a pointer in the source, never nil in an item of the queue\<close>
  Age :: string


subsection \<open>The environment of a manager\<close>

text \<open>
  The state file holds a JSON document. The model keeps the document as a value tree:
  the text layer of \<^verbatim>\<open>encoding/json\<close> (indentation, escapes, number syntax) is not
  modelled. A JSON string that is an RFC 3339 timestamp, as \<^verbatim>\<open>time.Time\<close> writes and
  reads it, is the leaf \<open>JTime\<close> of the instant it denotes; \<open>JOther\<close> stands for the
  values no field of the record accepts (booleans, arrays, numbers with a fraction or
  an exponent).
\<close>

datatype json =
    JNull
  | JInt int
  | JString string
  | JTime time
  | JObject "(string \<times> json) list"
  | JOther

datatype stored =
    NotExist          \<comment> \<open>no state file: \<^verbatim>\<open>os.IsNotExist\<close>\<close>
  | ReadError         \<comment> \<open>the file exists and cannot be read\<close>
  | Invalid           \<comment> \<open>bytes that are not a JSON text\<close>
  | Document json

datatype cmd_failure = ExitNonZero | Unreachable | PermissionDenied | NotStarted

datatype cmd_result = CmdOk string | CmdFailed cmd_failure

datatype error =
    ErrNotRunning
  | ErrAlreadyRunning
  | ErrNoQueue
  | IOError                      \<comment> \<open>a failure of the file system\<close>
  | DecodeError                  \<comment> \<open>\<^verbatim>\<open>json.Unmarshal\<close> refuses the file\<close>
  | MarshalError                 \<comment> \<open>\<^verbatim>\<open>json.MarshalIndent\<close> refuses the record\<close>
  | UnsupportedSignal            \<comment> \<open>\<^verbatim>\<open>os: unsupported signal type\<close>\<close>
  | ProcessDone                  \<comment> \<open>\<^verbatim>\<open>os: process already finished\<close>\<close>

datatype Signal = Interrupt | Kill

record rig =
  Name :: string
  Path :: string

record Manager =
  rig :: rig
  workDir :: string

text \<open>
  \<^verbatim>\<open>os.WriteFile\<close> opens the file with \<^verbatim>\<open>O_WRONLY|O_CREATE|O_TRUNC\<close>, writes the
  data and closes the file, and returns the first error of the three steps. The open
  empties the file, so a failure of a later step does not leave the file as it was.
\<close>

datatype write_result =
    Written                      \<comment> \<open>all three steps succeed\<close>
  | OpenFailed                   \<comment> \<open>the open is refused: the file is not touched\<close>
  | WriteFailed                  \<comment> \<open>the write stops short: the file is empty or cut off\<close>
  | CloseFailed                  \<comment> \<open>every byte is written, and the close reports an error\<close>

record world =
  disk :: stored                 \<comment> \<open>the file \<^verbatim>\<open>.gastown/refinery.json\<close> of the rig\<close>
  mkdir_ok :: bool               \<comment> \<open>whether \<^verbatim>\<open>os.MkdirAll\<close> succeeds\<close>
  write_file :: write_result     \<comment> \<open>how \<^verbatim>\<open>os.WriteFile\<close> ends\<close>
  alive :: "go_int \<Rightarrow> bool"      \<comment> \<open>the processes that exist\<close>
  self_pid :: go_int             \<comment> \<open>\<^verbatim>\<open>os.Getpid()\<close>\<close>
  clock :: "nat \<Rightarrow> time"         \<comment> \<open>the successive readings of the clock\<close>
  ticks :: nat                   \<comment> \<open>readings taken so far\<close>
  git_branch :: cmd_result       \<comment> \<open>outcome of \<^verbatim>\<open>git branch -r --list origin/polecat/*\<close>\<close>
  signalled :: "(go_int \<times> Signal) list"  \<comment> \<open>signals delivered, oldest first\<close>
  stdout :: "string list"        \<comment> \<open>lines printed, oldest first\<close>

abbreviation write_ok :: "world \<Rightarrow> bool" where
  "write_ok w \<equiv> write_file w = Written"

definition NewManager :: "rig \<Rightarrow> Manager" where
  "NewManager r = \<lparr>rig = r, workDir = Path r\<rparr>"

definition time_Now :: "world \<Rightarrow> world \<times> time" where
  "time_Now w = (w\<lparr>ticks := Suc (ticks w)\<rparr>, clock w (ticks w))"

definition Unix :: "time \<Rightarrow> int" where
  "Unix t = t div 1000000000"

subsection \<open>Formatting integers (\<^verbatim>\<open>%d\<close>)\<close>

definition digit_char :: "int \<Rightarrow> char" where
  "digit_char n = char_of (48 + n)"

function dec_digits :: "int \<Rightarrow> string" where
  "dec_digits n =
     (if n < 10 then [digit_char n] else dec_digits (n div 10) @ [digit_char (n mod 10)])"
  by pat_completeness auto
termination
  by (relation "measure nat") auto
declare dec_digits.simps [simp del]

definition dec_int :: "int \<Rightarrow> string" where
  "dec_int i = (if i < 0 then CHR ''-'' # dec_digits (- i) else dec_digits i)"

subsection \<open>The branch pattern\<close>

text \<open>
  \<^verbatim>\<open>^polecat/([^/]+)(?:/(.+))?$\<close> under Go's leftmost-first matching: every
  piece of the pattern lists the ways it can match a prefix of the input, in the order
  a backtracking matcher tries them (greedy: longest first), and the match is the first
  way that reaches the end of the text. \<open>[^/]\<close> and \<open>.\<close> match one character; on
  bytes, \<open>.\<close> is every byte but the line feed, and \<open>[^/]\<close> every byte but the slash
  (no byte of a multi-byte UTF-8 sequence is either).
\<close>

definition re_lit :: "string \<Rightarrow> string \<Rightarrow> string list" where
  "re_lit l s = (if take (length l) s = l then [drop (length l) s] else [])"

fun re_plus :: "(char \<Rightarrow> bool) \<Rightarrow> string \<Rightarrow> (string \<times> string) list" where
  "re_plus p [] = []"
| "re_plus p (c # cs) =
     (if p c then map (\<lambda>(m, r). (c # m, r)) (re_plus p cs) @ [([c], cs)] else [])"

definition re_issue_opt :: "string \<Rightarrow> (string \<times> string) list" where
  "re_issue_opt s =
     concat (map (\<lambda>r. re_plus (\<lambda>c. c \<noteq> CHR 0x0A) r) (re_lit ''/'' s)) @ [([], s)]"

definition re_polecat :: "string \<Rightarrow> (string \<times> string) list" where
  "re_polecat s =
     concat (map (\<lambda>r0.
       concat (map (\<lambda>(worker, r1).
         concat (map (\<lambda>(issue, r2). if r2 = [] then [(worker, issue)] else [])
           (re_issue_opt r1)))
         (re_plus (\<lambda>c. c \<noteq> CHR ''/'') r0)))
       (re_lit ''polecat/'' s))"

definition FindStringSubmatch :: "string \<Rightarrow> string list option" where
  "FindStringSubmatch s =
     (case re_polecat s of [] \<Rightarrow> None | (worker, issue) # _ \<Rightarrow> Some [s, worker, issue])"

subsection \<open>branchToMR\<close>

definition branchToMR :: "world \<Rightarrow> string \<Rightarrow> world \<times> MergeRequest option" where
  "branchToMR w branch =
     (case FindStringSubmatch branch of
        None \<Rightarrow> (w, None)
      | Some matches \<Rightarrow>
          (let worker = matches ! 1;
               issueID = (if length matches > 2 then matches ! 2 else []);
               (w1, t1) = time_Now w;
               (w2, t2) = time_Now w1
           in (w2, Some \<lparr>ID = ''mr-'' @ worker @ ''-'' @ dec_int (Unix t1),
                         Branch = branch,
                         Worker = worker,
                         IssueID = issueID,
                         SwarmID = [],
                         TargetBranch = ''main'',
                         CreatedAt = t2,
                         Status = MRPending,
                         Error = []\<rparr>)))"

subsection \<open>Durations and their floating-point readings\<close>

text \<open>
  A \<^verbatim>\<open>time.Duration\<close> is a signed 64-bit count of nanoseconds; \<^verbatim>\<open>Time.Sub\<close>
  saturates at the two ends of that range. \<^verbatim>\<open>Duration.Seconds\<close>, \<^verbatim>\<open>Minutes\<close> and
  \<^verbatim>\<open>Hours\<close> return a \<^verbatim>\<open>float64\<close>: the whole part and the remainder of the
  division are converted and added, each operation rounded to the nearest binary64
  value (ties to even). A binary64 value is modelled by the rational it denotes; the
  values of this program are far from the subnormal range and from overflow.
\<close>

type_synonym Duration = int

definition Nanosecond :: Duration where "Nanosecond = 1"
definition Second :: Duration where "Second = 1000000000"
definition Minute :: Duration where "Minute = 60 * Second"
definition Hour :: Duration where "Hour = 60 * Minute"

definition minDuration :: Duration where "minDuration = - (2 ^ 63)"
definition maxDuration :: Duration where "maxDuration = 2 ^ 63 - 1"

definition time_Sub :: "time \<Rightarrow> time \<Rightarrow> Duration" where
  "time_Sub t u =
     (let d = t - u
      in if d < minDuration then minDuration
         else if maxDuration < d then maxDuration
         else d)"

definition time_Since :: "world \<Rightarrow> time \<Rightarrow> world \<times> Duration" where
  "time_Since w t = (let (w1, now) = time_Now w in (w1, time_Sub now t))"

function bit_length :: "int \<Rightarrow> nat" where
  "bit_length n = (if n \<le> 0 then 0 else Suc (bit_length (n div 2)))"
  by pat_completeness auto
termination
  by (relation "measure nat") auto
declare bit_length.simps [simp del]

definition pow2 :: "int \<Rightarrow> rat" where
  "pow2 e = (if 0 \<le> e then 2 ^ nat e else 1 / 2 ^ nat (- e))"

definition binary_exponent :: "rat \<Rightarrow> int" where
  \<comment> \<open>for \<open>0 < x\<close>: the \<open>e\<close> with \<open>2 ^ e \<le> x < 2 ^ (e + 1)\<close>\<close>
  "binary_exponent x =
     (let (a, b) = quotient_of x;
          k = int (bit_length a) - int (bit_length b)
      in if pow2 k \<le> x then k else k - 1)"

definition round_half_even :: "rat \<Rightarrow> int" where
  "round_half_even x =
     (let f = \<lfloor>x\<rfloor>; r = x - of_int f
      in if r < 1 / 2 then f
         else if 1 / 2 < r then f + 1
         else if even f then f else f + 1)"

definition round_f64 :: "rat \<Rightarrow> rat" where
  \<comment> \<open>the nearest value with a 53-bit significand\<close>
  "round_f64 x =
     (if x = 0 then 0
      else let y = \<bar>x\<bar>;
               q = pow2 (binary_exponent y - 52)
           in sgn x * of_int (round_half_even (y / q)) * q)"

definition f64_of_int :: "int \<Rightarrow> rat" where
  "f64_of_int i = round_f64 (of_int i)"

definition f64_add :: "rat \<Rightarrow> rat \<Rightarrow> rat" where
  "f64_add x y = round_f64 (x + y)"

definition f64_div :: "rat \<Rightarrow> rat \<Rightarrow> rat" where
  "f64_div x y = round_f64 (x / y)"

definition int_of_f64 :: "rat \<Rightarrow> int" where
  \<comment> \<open>the conversion \<^verbatim>\<open>int(f)\<close> drops the fraction\<close>
  "int_of_f64 x = (if 0 \<le> x then \<lfloor>x\<rfloor> else \<lceil>x\<rceil>)"

definition Seconds :: "Duration \<Rightarrow> rat" where
  "Seconds d =
     (let sec = d sdiv Second; nsec = d smod Second
      in f64_add (f64_of_int sec) (f64_div (f64_of_int nsec) 1000000000))"

definition Minutes :: "Duration \<Rightarrow> rat" where
  "Minutes d =
     (let mins = d sdiv Minute; nsec = d smod Minute
      in f64_add (f64_of_int mins) (f64_div (f64_of_int nsec) (60 * 1000000000)))"

definition Hours :: "Duration \<Rightarrow> rat" where
  "Hours d =
     (let hour = d sdiv Hour; nsec = d smod Hour
      in f64_add (f64_of_int hour) (f64_div (f64_of_int nsec) (60 * 60 * 1000000000)))"

subsection \<open>formatAge\<close>

text \<open>
  \<open>formatAge\<close> reads the clock once, in \<^verbatim>\<open>time.Since\<close>; \<open>age_label\<close> is the rest of
  its body, the label of the duration read.
\<close>

definition age_label :: "Duration \<Rightarrow> string" where
  "age_label d =
     (if d < Minute then dec_int (int_of_f64 (Seconds d)) @ ''s ago''
      else if d < Hour then dec_int (int_of_f64 (Minutes d)) @ ''m ago''
      else if d < 24 * Hour then dec_int (int_of_f64 (Hours d)) @ ''h ago''
      else dec_int (int_of_f64 (f64_div (Hours d) 24)) @ ''d ago'')"

definition formatAge :: "world \<Rightarrow> time \<Rightarrow> world \<times> string" where
  "formatAge w t = (let (w1, d) = time_Since w t in (w1, age_label d))"


subsection \<open>UTF-8\<close>

text \<open>
  \<^verbatim>\<open>encoding/json\<close> coerces every string it writes or reads to valid UTF-8: each byte
  that does not start a well-formed sequence becomes U+FFFD. \<open>rune_size\<close> is the size
  \<^verbatim>\<open>utf8.DecodeRune\<close> reports for a well-formed sequence at the head of its argument, and
  \<open>0\<close> where it reports \<^verbatim>\<open>RuneError\<close> with size 1.
\<close>

definition byte :: "char \<Rightarrow> nat" where
  "byte c = of_char c"

definition in_range :: "nat \<Rightarrow> nat \<Rightarrow> char \<Rightarrow> bool" where
  "in_range lo hi c \<longleftrightarrow> lo \<le> byte c \<and> byte c \<le> hi"

definition lead_size :: "char \<Rightarrow> nat" where
  "lead_size c =
     (if byte c < 0x80 then 1
      else if byte c < 0xC2 then 0
      else if byte c < 0xE0 then 2
      else if byte c < 0xF0 then 3
      else if byte c < 0xF5 then 4
      else 0)"

definition second_lo :: "char \<Rightarrow> nat" where
  "second_lo c = (if byte c = 0xE0 then 0xA0 else if byte c = 0xF0 then 0x90 else 0x80)"

definition second_hi :: "char \<Rightarrow> nat" where
  "second_hi c = (if byte c = 0xED then 0x9F else if byte c = 0xF4 then 0x8F else 0xBF)"

definition rune_size :: "string \<Rightarrow> nat" where
  "rune_size s =
     (case s of
        [] \<Rightarrow> 0
      | c # cs \<Rightarrow>
          (let n = lead_size c
           in if n \<le> 1 then n
              else if length cs < n - 1 then 0
              else if \<not> in_range (second_lo c) (second_hi c) (cs ! 0) then 0
              else if n = 2 then 2
              else if \<not> in_range 0x80 0xBF (cs ! 1) then 0
              else if n = 3 then 3
              else if \<not> in_range 0x80 0xBF (cs ! 2) then 0
              else 4))"

definition replacement_char :: string where
  "replacement_char = [CHR 0xEF, CHR 0xBF, CHR 0xBD]"

function toValidUTF8 :: "string \<Rightarrow> string" where
  "toValidUTF8 s =
     (if s = [] then []
      else if rune_size s = 0 then replacement_char @ toValidUTF8 (tl s)
      else take (rune_size s) s @ toValidUTF8 (drop (rune_size s) s))"
  by pat_completeness auto
termination
  by (relation "measure length") auto
declare toValidUTF8.simps [simp del]

subsection \<open>Writing a record as JSON (\<^verbatim>\<open>json.MarshalIndent\<close>)\<close>

text \<open>
  Field names and \<^verbatim>\<open>omitempty\<close> are those of the struct tags. A \<^verbatim>\<open>time.Time\<close>
  is written as an RFC 3339 string, which has a four-digit year: the encoder fails for
  a year outside 0 to 9999. A time is kept as the instant it denotes and written in
  UTC, so \<open>rfc3339_ok\<close> bounds the year of the instant in UTC. Go reads the year in
  the zone of the time value: for a time in another zone the two bounds differ by the
  zone offset, that is, for instants within a day of the years 0 and 10000, which the
  definitions below do not cover.
\<close>

definition zero_time :: time where
  "zero_time = - 62135596800 * 1000000000"

definition rfc3339_ok :: "time \<Rightarrow> bool" where
  "rfc3339_ok t \<longleftrightarrow> - 62167219200 \<le> Unix t \<and> Unix t < 253402300800"

definition marshal_string :: "string \<Rightarrow> json" where
  "marshal_string s = JString (toValidUTF8 s)"

definition marshal_int :: "go_int \<Rightarrow> json" where
  "marshal_int i = JInt (sint i)"

definition marshal_time :: "time \<Rightarrow> error + json" where
  "marshal_time t = (if rfc3339_ok t then Inr (JTime t) else Inl MarshalError)"

definition marshal_MergeRequest :: "MergeRequest \<Rightarrow> error + json" where
  "marshal_MergeRequest mr =
     (case marshal_time (CreatedAt mr) of
        Inl e \<Rightarrow> Inl e
      | Inr created \<Rightarrow>
          Inr (JObject
            ([(''id'', marshal_string (ID mr)),
              (''branch'', marshal_string (Branch mr)),
              (''worker'', marshal_string (Worker mr)),
              (''issue_id'', marshal_string (IssueID mr))]
             @ (if SwarmID mr = [] then [] else [(''swarm_id'', marshal_string (SwarmID mr))])
             @ [(''target_branch'', marshal_string (TargetBranch mr)),
                (''created_at'', created),
                (''status'', marshal_string (Status mr))]
             @ (if Error mr = [] then [] else [(''error'', marshal_string (Error mr))]))))"

definition marshal_RefineryStats :: "RefineryStats \<Rightarrow> json" where
  "marshal_RefineryStats st =
     JObject
       [(''total_merged'', marshal_int (TotalMerged st)),
        (''total_failed'', marshal_int (TotalFailed st)),
        (''total_skipped'', marshal_int (TotalSkipped st)),
        (''today_merged'', marshal_int (TodayMerged st)),
        (''today_failed'', marshal_int (TodayFailed st))]"

definition marshal_omitempty ::
  "('a \<Rightarrow> error + json) \<Rightarrow> string \<Rightarrow> 'a option \<Rightarrow> error + (string \<times> json) list" where
  "marshal_omitempty enc key p =
     (case p of
        None \<Rightarrow> Inr []
      | Some x \<Rightarrow> (case enc x of Inl e \<Rightarrow> Inl e | Inr j \<Rightarrow> Inr [(key, j)]))"

definition marshal_Refinery :: "Refinery \<Rightarrow> error + json" where
  "marshal_Refinery r =
     (case marshal_omitempty marshal_time ''started_at'' (StartedAt r) of
        Inl e \<Rightarrow> Inl e
      | Inr started \<Rightarrow>
     (case marshal_omitempty marshal_MergeRequest ''current_mr'' (CurrentMR r) of
        Inl e \<Rightarrow> Inl e
      | Inr current \<Rightarrow>
     (case marshal_omitempty marshal_time ''last_merge_at'' (LastMergeAt r) of
        Inl e \<Rightarrow> Inl e
      | Inr lastm \<Rightarrow>
          Inr (JObject
            ([(''rig_name'', marshal_string (RigName r)),
              (''state'', marshal_string (State r))]
             @ (if PID r = 0 then [] else [(''pid'', marshal_int (PID r))])
             @ started @ current @ lastm
             @ [(''stats'', marshal_RefineryStats (Stats r))])))))"

subsection \<open>Reading a record from JSON (\<^verbatim>\<open>json.Unmarshal\<close>)\<close>

text \<open>
  The decoder fills a zero record from the members of the object, in order. A member is
  matched to the field whose name equals its key, also under case folding (\<open>foldName\<close>
  agrees with the decoder's folding wherever the result is compared with an ASCII
  name); a member no field matches is skipped; \<open>null\<close> leaves a value as it is and
  clears a pointer; a value of another kind than the field's is an error. A repeated
  member is decoded into what the earlier one left. \<open>JTime\<close> stands for a string where
  a timestamp is read: in the place of another string it stands for no file, and is
  refused.
\<close>

fun foldName :: "string \<Rightarrow> string" where
  "foldName [] = []"
| "foldName (c # cs) =
     (if 97 \<le> byte c \<and> byte c \<le> 122 then char_of (byte c - 32) # foldName cs
      else if c = CHR 0xC5 \<and> take 1 cs = [CHR 0xBF] then CHR ''S'' # foldName (drop 1 cs)
      else if c = CHR 0xE2 \<and> take 2 cs = [CHR 0x84, CHR 0xAA]
        then CHR ''K'' # foldName (drop 2 cs)
      else c # foldName cs)"
declare foldName.simps [simp del]

definition key_is :: "string \<Rightarrow> string \<Rightarrow> bool" where
  "key_is name key \<longleftrightarrow> key = name \<or> foldName key = foldName name"

definition then_set :: "error + 'a \<Rightarrow> ('a \<Rightarrow> 'r) \<Rightarrow> error + 'r" where
  "then_set x f = (case x of Inl e \<Rightarrow> Inl e | Inr a \<Rightarrow> Inr (f a))"

fun decode_members ::
  "(string \<times> json \<Rightarrow> 'r \<Rightarrow> error + 'r) \<Rightarrow> (string \<times> json) list \<Rightarrow> 'r \<Rightarrow> error + 'r" where
  "decode_members f [] r = Inr r"
| "decode_members f (kv # kvs) r =
     (case f kv r of Inl e \<Rightarrow> Inl e | Inr r' \<Rightarrow> decode_members f kvs r')"

fun decode_string :: "json \<Rightarrow> string \<Rightarrow> error + string" where
  "decode_string JNull cur = Inr cur"
| "decode_string (JString s) cur = Inr (toValidUTF8 s)"
| "decode_string _ cur = Inl DecodeError"

fun decode_int :: "json \<Rightarrow> go_int \<Rightarrow> error + go_int" where
  "decode_int JNull cur = Inr cur"
| "decode_int (JInt n) cur =
     (if - (2 ^ 63) \<le> n \<and> n < 2 ^ 63 then Inr (word_of_int n) else Inl DecodeError)"
| "decode_int _ cur = Inl DecodeError"

fun decode_time :: "json \<Rightarrow> time \<Rightarrow> error + time" where
  "decode_time JNull cur = Inr cur"
| "decode_time (JTime t) cur = (if rfc3339_ok t then Inr t else Inl DecodeError)"
| "decode_time _ cur = Inl DecodeError"

fun decode_time_ptr :: "json \<Rightarrow> time option \<Rightarrow> error + time option" where
  "decode_time_ptr JNull cur = Inr None"
| "decode_time_ptr v cur =
     then_set (decode_time v (case cur of None \<Rightarrow> zero_time | Some t \<Rightarrow> t)) Some"

definition zero_MergeRequest :: MergeRequest where
  "zero_MergeRequest =
     \<lparr>ID = [], Branch = [], Worker = [], IssueID = [], SwarmID = [], TargetBranch = [],
      CreatedAt = zero_time, Status = [], Error = []\<rparr>"

definition zero_RefineryStats :: RefineryStats where
  "zero_RefineryStats =
     \<lparr>TotalMerged = 0, TotalFailed = 0, TotalSkipped = 0, TodayMerged = 0, TodayFailed = 0\<rparr>"

definition zero_Refinery :: Refinery where
  "zero_Refinery =
     \<lparr>RigName = [], State = [], PID = 0, StartedAt = None, CurrentMR = None,
      LastMergeAt = None, Stats = zero_RefineryStats\<rparr>"

definition set_MergeRequest_field :: "string \<times> json \<Rightarrow> MergeRequest \<Rightarrow> error + MergeRequest" where
  "set_MergeRequest_field kv mr =
     (let (k, v) = kv
      in if key_is ''id'' k then then_set (decode_string v (ID mr)) (\<lambda>x. mr\<lparr>ID := x\<rparr>)
         else if key_is ''branch'' k
           then then_set (decode_string v (Branch mr)) (\<lambda>x. mr\<lparr>Branch := x\<rparr>)
         else if key_is ''worker'' k
           then then_set (decode_string v (Worker mr)) (\<lambda>x. mr\<lparr>Worker := x\<rparr>)
         else if key_is ''issue_id'' k
           then then_set (decode_string v (IssueID mr)) (\<lambda>x. mr\<lparr>IssueID := x\<rparr>)
         else if key_is ''swarm_id'' k
           then then_set (decode_string v (SwarmID mr)) (\<lambda>x. mr\<lparr>SwarmID := x\<rparr>)
         else if key_is ''target_branch'' k
           then then_set (decode_string v (TargetBranch mr)) (\<lambda>x. mr\<lparr>TargetBranch := x\<rparr>)
         else if key_is ''created_at'' k
           then then_set (decode_time v (CreatedAt mr)) (\<lambda>x. mr\<lparr>CreatedAt := x\<rparr>)
         else if key_is ''status'' k
           then then_set (decode_string v (Status mr)) (\<lambda>x. mr\<lparr>Status := x\<rparr>)
         else if key_is ''error'' k
           then then_set (decode_string v (Error mr)) (\<lambda>x. mr\<lparr>Error := x\<rparr>)
         else Inr mr)"

fun decode_MergeRequest_ptr :: "json \<Rightarrow> MergeRequest option \<Rightarrow> error + MergeRequest option" where
  "decode_MergeRequest_ptr JNull cur = Inr None"
| "decode_MergeRequest_ptr (JObject kvs) cur =
     then_set
       (decode_members set_MergeRequest_field kvs
          (case cur of None \<Rightarrow> zero_MergeRequest | Some mr \<Rightarrow> mr))
       Some"
| "decode_MergeRequest_ptr _ cur = Inl DecodeError"

definition set_RefineryStats_field :: "string \<times> json \<Rightarrow> RefineryStats \<Rightarrow> error + RefineryStats" where
  "set_RefineryStats_field kv st =
     (let (k, v) = kv
      in if key_is ''total_merged'' k
           then then_set (decode_int v (TotalMerged st)) (\<lambda>x. st\<lparr>TotalMerged := x\<rparr>)
         else if key_is ''total_failed'' k
           then then_set (decode_int v (TotalFailed st)) (\<lambda>x. st\<lparr>TotalFailed := x\<rparr>)
         else if key_is ''total_skipped'' k
           then then_set (decode_int v (TotalSkipped st)) (\<lambda>x. st\<lparr>TotalSkipped := x\<rparr>)
         else if key_is ''today_merged'' k
           then then_set (decode_int v (TodayMerged st)) (\<lambda>x. st\<lparr>TodayMerged := x\<rparr>)
         else if key_is ''today_failed'' k
           then then_set (decode_int v (TodayFailed st)) (\<lambda>x. st\<lparr>TodayFailed := x\<rparr>)
         else Inr st)"

fun decode_RefineryStats :: "json \<Rightarrow> RefineryStats \<Rightarrow> error + RefineryStats" where
  "decode_RefineryStats JNull cur = Inr cur"
| "decode_RefineryStats (JObject kvs) cur = decode_members set_RefineryStats_field kvs cur"
| "decode_RefineryStats _ cur = Inl DecodeError"

definition set_Refinery_field :: "string \<times> json \<Rightarrow> Refinery \<Rightarrow> error + Refinery" where
  "set_Refinery_field kv r =
     (let (k, v) = kv
      in if key_is ''rig_name'' k
           then then_set (decode_string v (RigName r)) (\<lambda>x. r\<lparr>RigName := x\<rparr>)
         else if key_is ''state'' k
           then then_set (decode_string v (State r)) (\<lambda>x. r\<lparr>State := x\<rparr>)
         else if key_is ''pid'' k
           then then_set (decode_int v (PID r)) (\<lambda>x. r\<lparr>PID := x\<rparr>)
         else if key_is ''started_at'' k
           then then_set (decode_time_ptr v (StartedAt r)) (\<lambda>x. r\<lparr>StartedAt := x\<rparr>)
         else if key_is ''current_mr'' k
           then then_set (decode_MergeRequest_ptr v (CurrentMR r)) (\<lambda>x. r\<lparr>CurrentMR := x\<rparr>)
         else if key_is ''last_merge_at'' k
           then then_set (decode_time_ptr v (LastMergeAt r)) (\<lambda>x. r\<lparr>LastMergeAt := x\<rparr>)
         else if key_is ''stats'' k
           then then_set (decode_RefineryStats v (Stats r)) (\<lambda>x. r\<lparr>Stats := x\<rparr>)
         else Inr r)"

fun Unmarshal :: "json \<Rightarrow> Refinery \<Rightarrow> error + Refinery" where
  "Unmarshal JNull ref = Inr ref"
| "Unmarshal (JObject kvs) ref = decode_members set_Refinery_field kvs ref"
| "Unmarshal _ ref = Inl DecodeError"


subsection \<open>The state store\<close>

definition loadState :: "Manager \<Rightarrow> world \<Rightarrow> error + Refinery" where
  "loadState m w =
     (case disk w of
        NotExist \<Rightarrow>
          Inr (zero_Refinery\<lparr>RigName := Name (rig m), State := StateStopped\<rparr>)
      | ReadError \<Rightarrow> Inl IOError
      | Invalid \<Rightarrow> Inl DecodeError
      | Document data \<Rightarrow> Unmarshal data zero_Refinery)"

definition saveState :: "Manager \<Rightarrow> world \<Rightarrow> Refinery \<Rightarrow> world \<times> error option" where
  "saveState m w ref =
     (if \<not> mkdir_ok w then (w, Some IOError)
      else case marshal_Refinery ref of
             Inl e \<Rightarrow> (w, Some e)
           | Inr data \<Rightarrow>
               (case write_file w of
                  Written \<Rightarrow> (w\<lparr>disk := Document data\<rparr>, None)
                | OpenFailed \<Rightarrow> (w, Some IOError)
                | WriteFailed \<Rightarrow> (w\<lparr>disk := Invalid\<rparr>, Some IOError)
                | CloseFailed \<Rightarrow> (w\<lparr>disk := Document data\<rparr>, Some IOError)))"

subsection \<open>Processes\<close>

text \<open>
  \<^verbatim>\<open>os.FindProcess\<close> always succeeds on Unix. \<^verbatim>\<open>Process.Signal\<close> takes an
  \<^verbatim>\<open>os.Signal\<close> interface value and asserts it to a \<^verbatim>\<open>syscall.Signal\<close>; the
  \<^verbatim>\<open>nil\<close> interface (\<open>None\<close>) fails that assertion, and the call returns the error
  \<^verbatim>\<open>os: unsupported signal type\<close> without reaching the process. A signal proper is
  delivered when the process exists.
\<close>

definition FindProcess :: "go_int \<Rightarrow> error + go_int" where
  "FindProcess pid = Inr pid"

definition Process_Signal :: "world \<Rightarrow> go_int \<Rightarrow> Signal option \<Rightarrow> world \<times> error option" where
  "Process_Signal w proc sig =
     (case sig of
        None \<Rightarrow> (w, Some UnsupportedSignal)
      | Some s \<Rightarrow>
          if alive w proc then (w\<lparr>signalled := signalled w @ [(proc, s)]\<rparr>, None)
          else (w, Some ProcessDone))"

definition processExists :: "world \<Rightarrow> go_int \<Rightarrow> bool" where
  "processExists w pid =
     (case FindProcess pid of
        Inl err \<Rightarrow> False
      | Inr proc \<Rightarrow> snd (Process_Signal w proc None) = None)"

subsection \<open>Status, Start and Stop\<close>

definition Manager_Status :: "Manager \<Rightarrow> world \<Rightarrow> world \<times> (error + Refinery)" where
  "Manager_Status m w =
     (case loadState m w of
        Inl err \<Rightarrow> (w, Inl err)
      | Inr ref \<Rightarrow>
          if State ref = StateRunning \<and> 0 <s PID ref then
            if \<not> processExists w (PID ref) then
              (let ref' = ref\<lparr>State := StateStopped, PID := 0\<rparr>;
                   (w', _) = saveState m w ref'
               in (w', Inr ref'))
            else (w, Inr ref)
          else (w, Inr ref))"

text \<open>
  The processing loop of the foreground mode prints two lines and blocks on an empty
  \<^verbatim>\<open>select\<close>: it never returns. \<open>Blocked\<close> is the outcome of a call that does not return.
\<close>

datatype 'a outcome = Returned 'a | Blocked

definition run :: "Manager \<Rightarrow> world \<Rightarrow> Refinery \<Rightarrow> world \<times> error option outcome" where
  "run m w ref =
     (w\<lparr>stdout := stdout w @ [''Refinery running (stub mode)...'', ''Press Ctrl+C to stop'']\<rparr>,
      Blocked)"

definition Manager_Start :: "Manager \<Rightarrow> bool \<Rightarrow> world \<Rightarrow> world \<times> error option outcome" where
  "Manager_Start m foreground w =
     (case loadState m w of
        Inl err \<Rightarrow> (w, Returned (Some err))
      | Inr ref \<Rightarrow>
          if State ref = StateRunning \<and> 0 <s PID ref \<and> processExists w (PID ref) then
            (w, Returned (Some ErrAlreadyRunning))
          else
            (let (w1, now) = time_Now w;
                 ref' = ref\<lparr>State := StateRunning, StartedAt := Some now, PID := self_pid w1\<rparr>;
                 (w2, err) = saveState m w1 ref'
             in case err of
                  Some e \<Rightarrow> (w2, Returned (Some e))
                | None \<Rightarrow> if foreground then run m w2 ref' else (w2, Returned None)))"

definition Manager_Stop :: "Manager \<Rightarrow> world \<Rightarrow> world \<times> error option" where
  "Manager_Stop m w =
     (case loadState m w of
        Inl err \<Rightarrow> (w, Some err)
      | Inr ref \<Rightarrow>
          if State ref \<noteq> StateRunning then (w, Some ErrNotRunning)
          else
            (let w1 = (if 0 <s PID ref \<and> PID ref \<noteq> self_pid w then
                         (case FindProcess (PID ref) of
                            Inr proc \<Rightarrow> fst (Process_Signal w proc (Some Interrupt))
                          | Inl err \<Rightarrow> w)
                       else w);
                 ref' = ref\<lparr>State := StateStopped, PID := 0\<rparr>
             in saveState m w1 ref'))"

subsection \<open>Branch discovery\<close>

text \<open>
  \<^verbatim>\<open>strings.TrimSpace\<close> removes the leading and trailing white space of Unicode;
  \<open>space_seqs\<close> lists the UTF-8 encodings of its characters.
\<close>

fun strings_Split_lf :: "string \<Rightarrow> string list" where
  "strings_Split_lf [] = [[]]"
| "strings_Split_lf (c # cs) =
     (if c = CHR 0x0A then [] # strings_Split_lf cs
      else (case strings_Split_lf cs of
              [] \<Rightarrow> [[c]]
            | l # ls \<Rightarrow> (c # l) # ls))"

definition space_seqs :: "string list" where
  "space_seqs =
     [[CHR 0x09], [CHR 0x0A], [CHR 0x0B], [CHR 0x0C], [CHR 0x0D], [CHR 0x20],
      [CHR 0xC2, CHR 0x85], [CHR 0xC2, CHR 0xA0],
      [CHR 0xE1, CHR 0x9A, CHR 0x80],
      [CHR 0xE2, CHR 0x80, CHR 0x80], [CHR 0xE2, CHR 0x80, CHR 0x81],
      [CHR 0xE2, CHR 0x80, CHR 0x82], [CHR 0xE2, CHR 0x80, CHR 0x83],
      [CHR 0xE2, CHR 0x80, CHR 0x84], [CHR 0xE2, CHR 0x80, CHR 0x85],
      [CHR 0xE2, CHR 0x80, CHR 0x86], [CHR 0xE2, CHR 0x80, CHR 0x87],
      [CHR 0xE2, CHR 0x80, CHR 0x88], [CHR 0xE2, CHR 0x80, CHR 0x89],
      [CHR 0xE2, CHR 0x80, CHR 0x8A],
      [CHR 0xE2, CHR 0x80, CHR 0xA8], [CHR 0xE2, CHR 0x80, CHR 0xA9],
      [CHR 0xE2, CHR 0x80, CHR 0xAF], [CHR 0xE2, CHR 0x81, CHR 0x9F],
      [CHR 0xE3, CHR 0x80, CHR 0x80]]"

definition leading_space :: "string \<Rightarrow> nat" where
  "leading_space s =
     (if s = [] then 0
      else case find (\<lambda>p. take (length p) s = p) space_seqs of
             None \<Rightarrow> 0
           | Some p \<Rightarrow> length p)"

definition trailing_space :: "string \<Rightarrow> nat" where
  "trailing_space s =
     (if s = [] then 0
      else case find (\<lambda>p. length p \<le> length s \<and> drop (length s - length p) s = p) space_seqs of
             None \<Rightarrow> 0
           | Some p \<Rightarrow> length p)"

function trim_left :: "string \<Rightarrow> string" where
  "trim_left s =
     (if leading_space s = 0 then s else trim_left (drop (leading_space s) s))"
  by pat_completeness auto
termination
  by (relation "measure length") (auto simp: leading_space_def split: if_splits)
declare trim_left.simps [simp del]

function trim_right :: "string \<Rightarrow> string" where
  "trim_right s =
     (if trailing_space s = 0 then s else trim_right (take (length s - trailing_space s) s))"
  by pat_completeness auto
termination
  by (relation "measure length") (auto simp: trailing_space_def split: if_splits)
declare trim_right.simps [simp del]

definition strings_TrimSpace :: "string \<Rightarrow> string" where
  "strings_TrimSpace s = trim_right (trim_left s)"

fun strings_Contains :: "string \<Rightarrow> string \<Rightarrow> bool" where
  "strings_Contains [] sub = (sub = [])"
| "strings_Contains (c # cs) sub =
     (take (length sub) (c # cs) = sub \<or> strings_Contains cs sub)"

definition strings_TrimPrefix :: "string \<Rightarrow> string \<Rightarrow> string" where
  "strings_TrimPrefix s prefix =
     (if take (length prefix) s = prefix then drop (length prefix) s else s)"

fun collect_branches :: "string list \<Rightarrow> string list \<Rightarrow> string list" where
  "collect_branches [] branches = branches"
| "collect_branches (line # lines) branches =
     (let branch = strings_TrimSpace line
      in if branch \<noteq> [] \<and> \<not> strings_Contains branch ''->''
         then collect_branches lines (branches @ [strings_TrimPrefix branch ''origin/''])
         else collect_branches lines branches)"

definition discoverWorkBranches :: "Manager \<Rightarrow> world \<Rightarrow> error + string list" where
  "discoverWorkBranches m w =
     (case git_branch w of
        CmdFailed err \<Rightarrow> Inr []
      | CmdOk out \<Rightarrow> Inr (collect_branches (strings_Split_lf out) []))"

subsection \<open>Queue\<close>

text \<open>
  \<open>pos\<close> counts the items appended: it stays below the length of a slice and cannot
  overflow, and is an \<^typ>\<open>int\<close> here.
\<close>

fun queue_branches ::
  "world \<Rightarrow> string list \<Rightarrow> int \<Rightarrow> QueueItem list \<Rightarrow> world \<times> QueueItem list" where
  "queue_branches w [] pos items = (w, items)"
| "queue_branches w (branch # branches) pos items =
     (let (w1, mr) = branchToMR w branch
      in case mr of
           None \<Rightarrow> queue_branches w1 branches pos items
         | Some mr' \<Rightarrow>
             (let (w2, age) = formatAge w1 (CreatedAt mr')
              in queue_branches w2 branches (pos + 1)
                   (items @ [\<lparr>Position = pos, MR = mr', Age = age\<rparr>])))"

definition Manager_Queue :: "Manager \<Rightarrow> world \<Rightarrow> world \<times> (error + QueueItem list)" where
  "Manager_Queue m w =
     (case discoverWorkBranches m w of
        Inl err \<Rightarrow> (w, Inl err)
      | Inr branches \<Rightarrow>
          (case loadState m w of
             Inl err \<Rightarrow> (w, Inl err)
           | Inr ref \<Rightarrow>
               (let (w1, items) =
                      (case CurrentMR ref of
                         None \<Rightarrow> (w, [])
                       | Some cur \<Rightarrow>
                           (let (w0, age) = formatAge w (CreatedAt cur)
                            in (w0, [\<lparr>Position = 0, MR = cur, Age = age\<rparr>])));
                    (w2, items') = queue_branches w1 branches 1 items
                in (w2, Inr items'))))"


subsection \<open>Properties of records and of branch names\<close>

text \<open>
  The shape of a work branch: \<open>polecat/<worker>\<close> or \<open>polecat/<worker>/<issue>\<close>,
  the worker a non-empty segment (it holds no slash), the issue, where present, the
  non-empty rest of the name.
\<close>

definition polecat_form :: "string \<Rightarrow> string \<Rightarrow> string \<Rightarrow> bool" where
  "polecat_form branch worker issue \<longleftrightarrow>
     worker \<noteq> [] \<and> CHR ''/'' \<notin> set worker \<and>
     (branch = ''polecat/'' @ worker \<and> issue = [] \<or>
      issue \<noteq> [] \<and> branch = ''polecat/'' @ worker @ ''/'' @ issue)"

definition accepted :: "string \<Rightarrow> bool" where
  "accepted branch \<longleftrightarrow> FindStringSubmatch branch \<noteq> None"

definition valid_utf8 :: "string \<Rightarrow> bool" where
  "valid_utf8 s \<longleftrightarrow> toValidUTF8 s = s"

definition utf8_MergeRequest :: "MergeRequest \<Rightarrow> bool" where
  "utf8_MergeRequest mr \<longleftrightarrow>
     valid_utf8 (ID mr) \<and> valid_utf8 (Branch mr) \<and> valid_utf8 (Worker mr) \<and>
     valid_utf8 (IssueID mr) \<and> valid_utf8 (SwarmID mr) \<and> valid_utf8 (TargetBranch mr) \<and>
     valid_utf8 (Status mr) \<and> valid_utf8 (Error mr)"

definition utf8_Refinery :: "Refinery \<Rightarrow> bool" where
  "utf8_Refinery r \<longleftrightarrow>
     valid_utf8 (RigName r) \<and> valid_utf8 (State r) \<and>
     (case CurrentMR r of None \<Rightarrow> True | Some mr \<Rightarrow> utf8_MergeRequest mr)"

text \<open>What the decoder makes of a record the encoder wrote: its strings coerced.\<close>

definition coerce_MergeRequest :: "MergeRequest \<Rightarrow> MergeRequest" where
  "coerce_MergeRequest mr =
     mr\<lparr>ID := toValidUTF8 (ID mr), Branch := toValidUTF8 (Branch mr),
        Worker := toValidUTF8 (Worker mr), IssueID := toValidUTF8 (IssueID mr),
        SwarmID := toValidUTF8 (SwarmID mr), TargetBranch := toValidUTF8 (TargetBranch mr),
        Status := toValidUTF8 (Status mr), Error := toValidUTF8 (Error mr)\<rparr>"

definition coerce_Refinery :: "Refinery \<Rightarrow> Refinery" where
  "coerce_Refinery r =
     r\<lparr>RigName := toValidUTF8 (RigName r), State := toValidUTF8 (State r),
       CurrentMR := map_option coerce_MergeRequest (CurrentMR r)\<rparr>"

text \<open>The records a state file can hold: valid strings, timestamps RFC 3339 can write.\<close>

definition storable_MergeRequest :: "MergeRequest \<Rightarrow> bool" where
  "storable_MergeRequest mr \<longleftrightarrow> utf8_MergeRequest mr \<and> rfc3339_ok (CreatedAt mr)"

definition storable_Refinery :: "Refinery \<Rightarrow> bool" where
  "storable_Refinery r \<longleftrightarrow>
     valid_utf8 (RigName r) \<and> valid_utf8 (State r) \<and>
     (case StartedAt r of None \<Rightarrow> True | Some t \<Rightarrow> rfc3339_ok t) \<and>
     (case CurrentMR r of None \<Rightarrow> True | Some mr \<Rightarrow> storable_MergeRequest mr) \<and>
     (case LastMergeAt r of None \<Rightarrow> True | Some t \<Rightarrow> rfc3339_ok t)"

text \<open>The invariant the spec gives for a stopped agent.\<close>

definition stopped_invariant :: "Refinery \<Rightarrow> bool" where
  "stopped_invariant r \<longleftrightarrow> (State r = StateStopped \<longrightarrow> CurrentMR r = None \<and> PID r = 0)"

text \<open>
  The worlds a manager can come to from a rig without a state file, when nothing but
  Start, Stop, Status and Queue writes the file; all else in the world may change at
  any time.
\<close>

inductive reachable :: "Manager \<Rightarrow> world \<Rightarrow> bool" for m :: Manager where
  fresh: "disk w = NotExist \<Longrightarrow> reachable m w"
| after_Start: "reachable m w \<Longrightarrow> reachable m (fst (Manager_Start m foreground w))"
| after_Stop: "reachable m w \<Longrightarrow> reachable m (fst (Manager_Stop m w))"
| after_Status: "reachable m w \<Longrightarrow> reachable m (fst (Manager_Status m w))"
| after_Queue: "reachable m w \<Longrightarrow> reachable m (fst (Manager_Queue m w))"
| environment: "reachable m w \<Longrightarrow> disk w' = disk w \<Longrightarrow> reachable m w'"

text \<open>In those worlds a stored record has no current merge request: nothing sets one.\<close>

definition settled :: "Refinery \<Rightarrow> bool" where
  "settled r \<longleftrightarrow> CurrentMR r = None \<and> (State r = StateStopped \<longrightarrow> PID r = 0)"


subsection \<open>Sample managers, worlds and records\<close>

definition mgr0 :: Manager where
  "mgr0 = NewManager \<lparr>Name = ''gastown'', Path = ''/rigs/gastown''\<rparr>"

definition world0 :: world where
  "world0 =
     \<lparr>disk = NotExist, mkdir_ok = True, write_file = Written, alive = (\<lambda>p. False),
      self_pid = 100, clock = (\<lambda>n. 1700000000000000000 + int n), ticks = 0,
      git_branch = CmdOk [], signalled = [], stdout = []\<rparr>"

definition sample_mr :: MergeRequest where
  "sample_mr =
     \<lparr>ID = ''mr-w1-1700000000'', Branch = ''polecat/w1/iss1'', Worker = ''w1'',
      IssueID = ''iss1'', SwarmID = ''swarm-7'', TargetBranch = ''main'',
      CreatedAt = 1700000000123456789, Status = MRFailed, Error = ''merge conflict''\<rparr>"

definition full_record :: Refinery where
  "full_record =
     \<lparr>RigName = ''gastown'', State = StateRunning, PID = 4242,
      StartedAt = Some 1700000001000000000, CurrentMR = Some sample_mr,
      LastMergeAt = Some 1699999000000000000,
      Stats = \<lparr>TotalMerged = 12, TotalFailed = 3, TotalSkipped = 1,
               TodayMerged = 2, TodayFailed = 1\<rparr>\<rparr>"

text \<open>A rig whose name is not UTF-8: \<open>caf\<close> and the Latin-1 byte of e acute.\<close>

definition latin1_record :: Refinery where
  "latin1_record = zero_Refinery\<lparr>RigName := ''caf'' @ [CHR 0xE9], State := StateStopped\<rparr>"

text \<open>A state file left by a refinery that ran as process 4242.\<close>

definition running_doc :: json where
  "running_doc =
     JObject
       [(''rig_name'', JString ''gastown''),
        (''state'', JString ''running''),
        (''pid'', JInt 4242),
        (''started_at'', JTime 1700000001000000000),
        (''stats'', JObject
           [(''total_merged'', JInt 12), (''total_failed'', JInt 3),
            (''total_skipped'', JInt 1), (''today_merged'', JInt 2),
            (''today_failed'', JInt 1)])]"

definition running_record :: Refinery where
  "running_record =
     \<lparr>RigName = ''gastown'', State = StateRunning, PID = 4242,
      StartedAt = Some 1700000001000000000, CurrentMR = None, LastMergeAt = None,
      Stats = \<lparr>TotalMerged = 12, TotalFailed = 3, TotalSkipped = 1,
               TodayMerged = 2, TodayFailed = 1\<rparr>\<rparr>"




definition live_world :: world where
  \<comment> \<open>process 4242 is running\<close>
  "live_world = world0\<lparr>disk := Document running_doc, alive := (\<lambda>p. p = 4242)\<rparr>"

definition busy_world :: world where
  \<comment> \<open>the state file holds \<open>full_record\<close>, a running refinery in the middle of a merge\<close>
  "busy_world = fst (saveState mgr0 world0 full_record)"

definition denied_world :: world where
  \<comment> \<open>git cannot read the repository\<close>
  "denied_world = world0\<lparr>git_branch := CmdFailed PermissionDenied\<rparr>"

definition queue_world :: world where
  \<comment> \<open>a merge of \<open>polecat/w1/iss1\<close> is in flight, and git lists that branch again\<close>
  "queue_world =
     busy_world\<lparr>git_branch :=
       CmdOk (''  origin/polecat/w1/iss1'' @ [CHR 0x0A] @ ''  origin/polecat/w2'' @ [CHR 0x0A])\<rparr>"

definition restarted_world :: world where
  \<comment> \<open>a background Start beside an absent state file, then a Stop\<close>
  "restarted_world = fst (Manager_Stop mgr0 (fst (Manager_Start mgr0 False world0)))"


section \<open>Supporting facts\<close>

subsection \<open>The branch pattern\<close>

lemma re_lit_iff: "r \<in> set (re_lit l s) \<longleftrightarrow> s = l @ r"
  by (auto simp: re_lit_def) (metis append_take_drop_id)

lemma re_plus_iff:
  "(m, r) \<in> set (re_plus p s) \<longleftrightarrow> m \<noteq> [] \<and> s = m @ r \<and> (\<forall>c \<in> set m. p c)"
proof (induction s arbitrary: m r)
  case Nil
  then show ?case by simp
next
  case (Cons c cs)
  show ?case
  proof (cases "p c")
    case False
    then show ?thesis by (cases m) auto
  next
    case True
    have img: "\<And>m' r'. ((c # m', r') \<in> (\<lambda>(m, r). (c # m, r)) ` set (re_plus p cs)) = ((m', r') \<in> set (re_plus p cs))"
      by force
    show ?thesis
    proof (cases m)
      case Nil
      then show ?thesis using True by auto
    next
      case (Cons a m')
      then show ?thesis using True Cons.IH [of m' r]
        by (cases "a = c") (auto simp: img)
    qed
  qed
qed

lemma re_issue_opt_iff:
  "(i, r) \<in> set (re_issue_opt s) \<longleftrightarrow>
     (i = [] \<and> r = s) \<or> (i \<noteq> [] \<and> s = ''/'' @ i @ r \<and> CHR 0x0A \<notin> set i)"
  by (auto simp: re_issue_opt_def re_lit_iff re_plus_iff)

lemma re_polecat_iff:
  "(w, i) \<in> set (re_polecat s) \<longleftrightarrow>
     polecat_form s w i \<and> CHR 0x0A \<notin> set i"
  by (auto simp: re_polecat_def re_lit_iff re_plus_iff re_issue_opt_iff polecat_form_def)


lemma split_at_unique:
  assumes "c \<notin> set u" and "c \<notin> set u'"
    and "x = [] \<or> hd x = c" and "x' = [] \<or> hd x' = c"
    and "u @ x = u' @ x'"
  shows "u = u' \<and> x = x'"
proof -
  have "\<And>v y. c \<notin> set v \<Longrightarrow> y = [] \<or> hd y = c \<Longrightarrow> takeWhile (\<lambda>a. a \<noteq> c) (v @ y) = v"
  proof -
    fix v y assume h: "c \<notin> set v" "y = [] \<or> hd y = c"
    show "takeWhile (\<lambda>a. a \<noteq> c) (v @ y) = v"
    proof (cases y)
      case Nil
      with h show ?thesis by (simp add: takeWhile_eq_all_conv) blast
    next
      case (Cons a ys)
      with h have "a = c" by simp
      with Cons h show ?thesis by (simp add: takeWhile_tail takeWhile_eq_all_conv) blast
    qed
  qed
  from this [OF assms(1) assms(3)] this [OF assms(2) assms(4)] assms(5)
  have "u = u'" by simp
  with assms(5) show ?thesis by simp
qed

lemma polecat_form_tail:
  assumes "polecat_form s w i"
  shows "\<exists>x. s = ''polecat/'' @ w @ x \<and> (x = [] \<or> hd x = CHR ''/'') \<and> i = tl x \<and>
             CHR ''/'' \<notin> set w"
proof -
  from assms have w: "CHR ''/'' \<notin> set w" by (simp add: polecat_form_def)
  from assms consider "s = ''polecat/'' @ w" "i = []"
    | "s = ''polecat/'' @ w @ ''/'' @ i"
    by (auto simp: polecat_form_def)
  then show ?thesis
  proof cases
    case 1
    with w show ?thesis by (intro exI [of _ "[]"]) simp
  next
    case 2
    with w show ?thesis by (intro exI [of _ "CHR ''/'' # i"]) simp
  qed
qed

lemma polecat_form_unique:
  assumes "polecat_form s w i" and "polecat_form s w' i'"
  shows "w = w' \<and> i = i'"
proof -
  from polecat_form_tail [OF assms(1)]
  obtain x where x: "s = ''polecat/'' @ w @ x" "x = [] \<or> hd x = CHR ''/''"
    "i = tl x" "CHR ''/'' \<notin> set w"
    by blast
  from polecat_form_tail [OF assms(2)]
  obtain x' where x': "s = ''polecat/'' @ w' @ x'" "x' = [] \<or> hd x' = CHR ''/''"
    "i' = tl x'" "CHR ''/'' \<notin> set w'"
    by blast
  from x(1) x'(1) have "w @ x = w' @ x'" by simp
  from split_at_unique [OF x(4) x'(4) x(2) x'(2) this] x(3) x'(3)
  show ?thesis by simp
qed

lemma FindStringSubmatch_iff:
  "FindStringSubmatch s = Some ms \<longleftrightarrow>
     (\<exists>w i. ms = [s, w, i] \<and> polecat_form s w i \<and> CHR 0x0A \<notin> set i)"
proof (cases "re_polecat s")
  case Nil
  then have "\<And>w i. \<not> (polecat_form s w i \<and> CHR 0x0A \<notin> set i)"
    using re_polecat_iff [of _ _ s] by simp
  with Nil show ?thesis by (auto simp: FindStringSubmatch_def)
next
  case (Cons x xs)
  obtain w0 i0 where x: "x = (w0, i0)" by (cases x)
  with Cons have "(w0, i0) \<in> set (re_polecat s)" by simp
  then have f0: "polecat_form s w0 i0" "CHR 0x0A \<notin> set i0"
    by (simp_all add: re_polecat_iff)
  have fs: "FindStringSubmatch s = Some [s, w0, i0]"
    using Cons x by (simp add: FindStringSubmatch_def)
  show ?thesis
  proof
    assume "FindStringSubmatch s = Some ms"
    with fs have "ms = [s, w0, i0]" by simp
    with f0 show "\<exists>w i. ms = [s, w, i] \<and> polecat_form s w i \<and> CHR 0x0A \<notin> set i"
      by blast
  next
    assume "\<exists>w i. ms = [s, w, i] \<and> polecat_form s w i \<and> CHR 0x0A \<notin> set i"
    then obtain w i where wi: "ms = [s, w, i]" "polecat_form s w i" by blast
    from polecat_form_unique [OF f0(1) wi(2)] have "w0 = w" "i0 = i" by simp_all
    with fs wi(1) show "FindStringSubmatch s = Some ms" by simp
  qed
qed

subsection \<open>Coercion to valid UTF-8\<close>

lemma rune_size_le: "rune_size s \<le> length s"
  by (cases s) (auto simp: rune_size_def Let_def lead_size_def Suc_le_eq)

lemma rune_size_le4: "rune_size s \<le> 4"
  by (cases s) (auto simp: rune_size_def Let_def lead_size_def)

lemma rune_size_prefix:
  assumes "rune_size s \<noteq> 0"
  shows "rune_size (take (rune_size s) s @ ys) = rune_size s"
proof (cases s)
  case Nil
  with assms show ?thesis by (simp add: rune_size_def)
next
  case (Cons c cs)
  show ?thesis
    using assms unfolding Cons
    by (auto simp: rune_size_def Let_def nth_append lead_size_def split: if_splits)
qed

lemma rune_size_replacement: "rune_size (replacement_char @ ys) = 3"
  by (simp add: replacement_char_def rune_size_def lead_size_def byte_def in_range_def
      second_lo_def second_hi_def)

lemma toValidUTF8_Nil: "toValidUTF8 [] = []"
  by (subst toValidUTF8.simps) simp

lemma toValidUTF8_rune:
  assumes "rune_size s \<noteq> 0"
  shows "toValidUTF8 (take (rune_size s) s @ ys) = take (rune_size s) s @ toValidUTF8 ys"
proof -
  let ?p = "take (rune_size s) s"
  have len: "length ?p = rune_size s" using rune_size_le [of s] by simp
  have ne: "?p @ ys \<noteq> []" using assms len by auto
  have rs: "rune_size (?p @ ys) = rune_size s" by (rule rune_size_prefix [OF assms])
  show ?thesis
    by (subst toValidUTF8.simps) (simp add: ne rs assms rune_size_le min_absorb2 del: append_is_Nil_conv)
qed

lemma toValidUTF8_replacement:
  "toValidUTF8 (replacement_char @ ys) = replacement_char @ toValidUTF8 ys"
proof -
  have "rune_size replacement_char = 3"
    using rune_size_replacement [of "[]"] by simp
  then show ?thesis
    using toValidUTF8_rune [of replacement_char ys] by (simp add: replacement_char_def)
qed

lemma toValidUTF8_idem: "toValidUTF8 (toValidUTF8 s) = toValidUTF8 s"
proof (induction s rule: toValidUTF8.induct)
  case (1 s)
  show ?case
  proof (cases "s = []")
    case True
    then show ?thesis by (simp add: toValidUTF8_Nil)
  next
    case ne: False
    show ?thesis
    proof (cases "rune_size s = 0")
      case True
      have "toValidUTF8 s = replacement_char @ toValidUTF8 (tl s)"
        by (subst toValidUTF8.simps) (simp add: ne True)
      then show ?thesis
        using "1.IH"(1) [OF ne True] by (simp add: toValidUTF8_replacement)
    next
      case False
      have "toValidUTF8 s = take (rune_size s) s @ toValidUTF8 (drop (rune_size s) s)"
        by (subst toValidUTF8.simps) (simp add: ne False)
      then show ?thesis
        using "1.IH"(2) [OF ne False] by (simp add: toValidUTF8_rune [OF False])
    qed
  qed
qed

subsection \<open>The decoder reads what the encoder wrote\<close>

lemma foldName_names:
  "foldName ''id'' = ''ID''"
  "foldName ''branch'' = ''BRANCH''"
  "foldName ''worker'' = ''WORKER''"
  "foldName ''issue_id'' = ''ISSUE_ID''"
  "foldName ''swarm_id'' = ''SWARM_ID''"
  "foldName ''target_branch'' = ''TARGET_BRANCH''"
  "foldName ''created_at'' = ''CREATED_AT''"
  "foldName ''status'' = ''STATUS''"
  "foldName ''error'' = ''ERROR''"
  "foldName ''total_merged'' = ''TOTAL_MERGED''"
  "foldName ''total_failed'' = ''TOTAL_FAILED''"
  "foldName ''total_skipped'' = ''TOTAL_SKIPPED''"
  "foldName ''today_merged'' = ''TODAY_MERGED''"
  "foldName ''today_failed'' = ''TODAY_FAILED''"
  "foldName ''rig_name'' = ''RIG_NAME''"
  "foldName ''state'' = ''STATE''"
  "foldName ''pid'' = ''PID''"
  "foldName ''started_at'' = ''STARTED_AT''"
  "foldName ''current_mr'' = ''CURRENT_MR''"
  "foldName ''last_merge_at'' = ''LAST_MERGE_AT''"
  "foldName ''stats'' = ''STATS''"
  by code_simp+

lemma decode_int_marshal: "decode_int (marshal_int i) cur = Inr i"
proof -
  have "- (2 ^ 63) \<le> sint i" using sint_ge [of i] by simp
  moreover have "sint i < 2 ^ 63" using sint_lt [of i] by simp
  ultimately show ?thesis by (simp add: marshal_int_def)
qed

lemma decode_string_marshal: "decode_string (marshal_string s) cur = Inr (toValidUTF8 s)"
  by (simp add: marshal_string_def toValidUTF8_idem)

lemma decode_RefineryStats_marshal:
  "decode_RefineryStats (marshal_RefineryStats st) cur = Inr st"
  by (cases st, cases cur)
     (simp add: marshal_RefineryStats_def set_RefineryStats_field_def key_is_def
       foldName_names then_set_def decode_int_marshal)


lemma decode_time_marshal: "marshal_time t = Inr j \<Longrightarrow> decode_time j cur = Inr t"
  by (auto simp: marshal_time_def split: if_splits)

lemma decode_MergeRequest_marshal:
  assumes "marshal_MergeRequest mr = Inr j"
  shows "decode_MergeRequest_ptr j None = Inr (Some (coerce_MergeRequest mr))"
proof -
  from assms have ok: "rfc3339_ok (CreatedAt mr)"
    by (auto simp: marshal_MergeRequest_def marshal_time_def split: if_splits)
  show ?thesis
    using assms ok
    by (cases mr)
       (auto simp: marshal_MergeRequest_def marshal_time_def set_MergeRequest_field_def
         key_is_def foldName_names then_set_def decode_string_marshal zero_MergeRequest_def
         coerce_MergeRequest_def toValidUTF8_Nil)
qed


lemma decode_members_append:
  "decode_members f (xs @ ys) r =
     (case decode_members f xs r of Inl e \<Rightarrow> Inl e | Inr r' \<Rightarrow> decode_members f ys r')"
  by (induction xs arbitrary: r) (auto split: sum.splits)

lemma decode_members_append_Inr:
  "decode_members f xs r = Inr r' \<Longrightarrow> decode_members f (xs @ ys) r = decode_members f ys r'"
  by (simp add: decode_members_append)

lemma decode_time_ptr_marshal:
  "marshal_time t = Inr j \<Longrightarrow> decode_time_ptr j cur = Inr (Some t)"
  by (auto simp: marshal_time_def then_set_def split: if_splits)

lemma Unmarshal_marshal:
  assumes "marshal_Refinery r = Inr j"
  shows "Unmarshal j zero_Refinery = Inr (coerce_Refinery r)"
proof -
  obtain started current lastm where
    s: "marshal_omitempty marshal_time ''started_at'' (StartedAt r) = Inr started" and
    c: "marshal_omitempty marshal_MergeRequest ''current_mr'' (CurrentMR r) = Inr current" and
    l: "marshal_omitempty marshal_time ''last_merge_at'' (LastMergeAt r) = Inr lastm" and
    j: "j = JObject
            ([(''rig_name'', marshal_string (RigName r)),
              (''state'', marshal_string (State r))]
             @ (if PID r = 0 then [] else [(''pid'', marshal_int (PID r))])
             @ started @ current @ lastm
             @ [(''stats'', marshal_RefineryStats (Stats r))])"
    using assms by (auto simp: marshal_Refinery_def split: sum.splits)
  let ?f = set_Refinery_field
  let ?r1 = "zero_Refinery\<lparr>RigName := toValidUTF8 (RigName r), State := toValidUTF8 (State r)\<rparr>"
  have d1: "decode_members ?f [(''rig_name'', marshal_string (RigName r)),
              (''state'', marshal_string (State r))] zero_Refinery = Inr ?r1"
    by (simp add: set_Refinery_field_def key_is_def foldName_names then_set_def
        decode_string_marshal)
  let ?r2 = "?r1\<lparr>PID := PID r\<rparr>"
  have d2: "decode_members ?f (if PID r = 0 then [] else [(''pid'', marshal_int (PID r))]) ?r1
      = Inr ?r2"
    by (simp add: set_Refinery_field_def key_is_def foldName_names then_set_def
        decode_int_marshal zero_Refinery_def)
  let ?r3 = "?r2\<lparr>StartedAt := StartedAt r\<rparr>"
  have d3: "decode_members ?f started ?r2 = Inr ?r3"
    using s
    by (cases "StartedAt r")
       (auto simp: marshal_omitempty_def set_Refinery_field_def key_is_def foldName_names
         then_set_def zero_Refinery_def marshal_time_def split: sum.splits if_splits)
  let ?r4 = "?r3\<lparr>CurrentMR := map_option coerce_MergeRequest (CurrentMR r)\<rparr>"
  have d4: "decode_members ?f current ?r3 = Inr ?r4"
  proof (cases "CurrentMR r")
    case None
    with c show ?thesis by (simp add: marshal_omitempty_def zero_Refinery_def)
  next
    case (Some mr)
    with c obtain jm where jm: "marshal_MergeRequest mr = Inr jm" "current = [(''current_mr'', jm)]"
      by (auto simp: marshal_omitempty_def split: sum.splits)
    show ?thesis
      using decode_MergeRequest_marshal [OF jm(1)] Some jm(2)
      by (simp add: set_Refinery_field_def key_is_def foldName_names then_set_def
          zero_Refinery_def)
  qed
  let ?r5 = "?r4\<lparr>LastMergeAt := LastMergeAt r\<rparr>"
  have d5: "decode_members ?f lastm ?r4 = Inr ?r5"
    using l
    by (cases "LastMergeAt r")
       (auto simp: marshal_omitempty_def set_Refinery_field_def key_is_def foldName_names
         then_set_def zero_Refinery_def marshal_time_def split: sum.splits if_splits)
  let ?r6 = "?r5\<lparr>Stats := Stats r\<rparr>"
  have d6: "decode_members ?f [(''stats'', marshal_RefineryStats (Stats r))] ?r5 = Inr ?r6"
    by (simp add: set_Refinery_field_def key_is_def foldName_names then_set_def
        decode_RefineryStats_marshal)
  have "decode_members ?f
          ([(''rig_name'', marshal_string (RigName r)),
            (''state'', marshal_string (State r))]
           @ (if PID r = 0 then [] else [(''pid'', marshal_int (PID r))])
           @ started @ current @ lastm
           @ [(''stats'', marshal_RefineryStats (Stats r))]) zero_Refinery = Inr ?r6"
    by (simp only: decode_members_append_Inr [OF d1] decode_members_append_Inr [OF d2]
        decode_members_append_Inr [OF d3] decode_members_append_Inr [OF d4]
        decode_members_append_Inr [OF d5] d6)
  then have "Unmarshal j zero_Refinery = Inr ?r6"
    by (simp only: j Unmarshal.simps)
  moreover have "?r6 = coerce_Refinery r"
    by (cases r) (simp add: coerce_Refinery_def zero_Refinery_def)
  ultimately show ?thesis by simp
qed

subsection \<open>What a state file can hold\<close>

lemma valid_utf8_coerced: "valid_utf8 (toValidUTF8 s)"
  by (simp add: valid_utf8_def toValidUTF8_idem)

lemma valid_utf8_Nil: "valid_utf8 []"
  by (simp add: valid_utf8_def toValidUTF8_Nil)

lemma decode_string_valid:
  "decode_string v cur = Inr s \<Longrightarrow> valid_utf8 cur \<Longrightarrow> valid_utf8 s"
  by (cases v) (auto simp: valid_utf8_coerced)

lemma decode_time_ok:
  "decode_time v cur = Inr t \<Longrightarrow> rfc3339_ok cur \<Longrightarrow> rfc3339_ok t"
  by (cases v) (auto split: if_splits)

lemma rfc3339_ok_zero: "rfc3339_ok zero_time"
  by (simp add: rfc3339_ok_def zero_time_def Unix_def)

lemma decode_time_ptr_ok:
  assumes "decode_time_ptr v cur = Inr p"
    and "case cur of None \<Rightarrow> True | Some t \<Rightarrow> rfc3339_ok t"
  shows "case p of None \<Rightarrow> True | Some t \<Rightarrow> rfc3339_ok t"
  using assms
  by (cases v; cases cur)
     (auto simp: then_set_def rfc3339_ok_zero split: if_splits sum.splits)

lemma decode_members_invariant:
  assumes step: "\<And>kv r r'. f kv r = Inr r' \<Longrightarrow> P r \<Longrightarrow> P r'"
  shows "decode_members f kvs r = Inr r' \<Longrightarrow> P r \<Longrightarrow> P r'"
proof (induction kvs arbitrary: r)
  case Nil
  then show ?case by simp
next
  case (Cons kv kvs)
  from Cons.prems(1) obtain r1 where r1: "f kv r = Inr r1" "decode_members f kvs r1 = Inr r'"
    by (auto split: sum.splits)
  from step [OF r1(1) Cons.prems(2)] have "P r1" .
  from Cons.IH [OF r1(2) this] show ?case .
qed

lemma set_MergeRequest_field_storable:
  assumes "set_MergeRequest_field kv mr = Inr mr'" and "storable_MergeRequest mr"
  shows "storable_MergeRequest mr'"
proof -
  obtain k v where kv: "kv = (k, v)" by (cases kv)
  have str: "\<And>cur s. decode_string v cur = Inr s \<Longrightarrow> valid_utf8 cur \<Longrightarrow> valid_utf8 s"
    by (rule decode_string_valid)
  have tm: "\<And>cur t. decode_time v cur = Inr t \<Longrightarrow> rfc3339_ok cur \<Longrightarrow> rfc3339_ok t"
    by (rule decode_time_ok)
  show ?thesis
    using assms str tm unfolding kv set_MergeRequest_field_def then_set_def
      storable_MergeRequest_def utf8_MergeRequest_def Let_def
    by (simp split: if_splits sum.splits prod.splits) fastforce+
qed


lemma storable_zero_MergeRequest: "storable_MergeRequest zero_MergeRequest"
  by (simp add: storable_MergeRequest_def utf8_MergeRequest_def zero_MergeRequest_def
      valid_utf8_Nil rfc3339_ok_zero)

lemma decode_MergeRequest_ptr_storable:
  assumes "decode_MergeRequest_ptr v cur = Inr p"
    and "case cur of None \<Rightarrow> True | Some mr \<Rightarrow> storable_MergeRequest mr"
  shows "case p of None \<Rightarrow> True | Some mr \<Rightarrow> storable_MergeRequest mr"
proof (cases v)
  case (JObject kvs)
  let ?start = "case cur of None \<Rightarrow> zero_MergeRequest | Some mr \<Rightarrow> mr"
  from assms(1) JObject obtain mr' where
    mr': "decode_members set_MergeRequest_field kvs ?start = Inr mr'" "p = Some mr'"
    by (auto simp: then_set_def split: sum.splits)
  have "storable_MergeRequest ?start"
    using assms(2) by (cases cur) (simp_all add: storable_zero_MergeRequest)
  from decode_members_invariant [of set_MergeRequest_field storable_MergeRequest,
      OF set_MergeRequest_field_storable mr'(1) this]
  show ?thesis using mr'(2) by simp
qed (use assms in auto)

lemma set_Refinery_field_storable:
  assumes "set_Refinery_field kv r = Inr r'" and "storable_Refinery r"
  shows "storable_Refinery r'"
proof -
  obtain k v where kv: "kv = (k, v)" by (cases kv)
  have str: "\<And>cur s. decode_string v cur = Inr s \<Longrightarrow> valid_utf8 cur \<Longrightarrow> valid_utf8 s"
    by (rule decode_string_valid)
  have tm: "\<And>cur p. decode_time_ptr v cur = Inr p \<Longrightarrow>
      (case cur of None \<Rightarrow> True | Some t \<Rightarrow> rfc3339_ok t) \<Longrightarrow>
      (case p of None \<Rightarrow> True | Some t \<Rightarrow> rfc3339_ok t)"
    by (rule decode_time_ptr_ok)
  have mr: "\<And>cur p. decode_MergeRequest_ptr v cur = Inr p \<Longrightarrow>
      (case cur of None \<Rightarrow> True | Some mr \<Rightarrow> storable_MergeRequest mr) \<Longrightarrow>
      (case p of None \<Rightarrow> True | Some mr \<Rightarrow> storable_MergeRequest mr)"
    by (rule decode_MergeRequest_ptr_storable)
  show ?thesis
    using assms str tm mr unfolding kv set_Refinery_field_def then_set_def
      storable_Refinery_def Let_def
    by (simp split: if_splits sum.splits prod.splits) fastforce+
qed

lemma storable_zero_Refinery: "storable_Refinery zero_Refinery"
  by (simp add: storable_Refinery_def zero_Refinery_def valid_utf8_Nil)

lemma Unmarshal_storable:
  assumes "Unmarshal j zero_Refinery = Inr r"
  shows "storable_Refinery r"
proof (cases j)
  case (JObject kvs)
  with assms have "decode_members set_Refinery_field kvs zero_Refinery = Inr r" by simp
  from decode_members_invariant [of set_Refinery_field storable_Refinery,
      OF set_Refinery_field_storable this storable_zero_Refinery]
  show ?thesis .
qed (use assms storable_zero_Refinery in auto)

lemma storable_MergeRequest_marshal:
  "storable_MergeRequest mr \<Longrightarrow> \<exists>j. marshal_MergeRequest mr = Inr j"
  by (simp add: storable_MergeRequest_def marshal_MergeRequest_def marshal_time_def)

lemma storable_marshal:
  assumes "storable_Refinery r"
  shows "\<exists>j. marshal_Refinery r = Inr j"
proof -
  have s: "\<exists>x. marshal_omitempty marshal_time ''started_at'' (StartedAt r) = Inr x"
    using assms by (cases "StartedAt r")
      (auto simp: storable_Refinery_def marshal_omitempty_def marshal_time_def)
  have l: "\<exists>x. marshal_omitempty marshal_time ''last_merge_at'' (LastMergeAt r) = Inr x"
    using assms by (cases "LastMergeAt r")
      (auto simp: storable_Refinery_def marshal_omitempty_def marshal_time_def)
  have c: "\<exists>x. marshal_omitempty marshal_MergeRequest ''current_mr'' (CurrentMR r) = Inr x"
  proof (cases "CurrentMR r")
    case None
    then show ?thesis by (simp add: marshal_omitempty_def)
  next
    case (Some mr)
    with assms have "storable_MergeRequest mr" by (simp add: storable_Refinery_def)
    from storable_MergeRequest_marshal [OF this] Some show ?thesis
      by (auto simp: marshal_omitempty_def)
  qed
  from s c l show ?thesis by (auto simp: marshal_Refinery_def)
qed

lemma utf8_coerce_MergeRequest: "utf8_MergeRequest mr \<Longrightarrow> coerce_MergeRequest mr = mr"
  by (simp add: utf8_MergeRequest_def coerce_MergeRequest_def valid_utf8_def)

lemma utf8_coerce_Refinery: "utf8_Refinery r \<Longrightarrow> coerce_Refinery r = r"
  by (cases "CurrentMR r")
     (simp_all add: utf8_Refinery_def coerce_Refinery_def valid_utf8_def
       utf8_coerce_MergeRequest)

lemma storable_utf8: "storable_Refinery r \<Longrightarrow> utf8_Refinery r"
  by (cases "CurrentMR r")
     (simp_all add: storable_Refinery_def utf8_Refinery_def storable_MergeRequest_def)


subsection \<open>The state store\<close>

lemma saveState_None_iff:
  "snd (saveState m w r) = None \<longleftrightarrow>
     mkdir_ok w \<and> write_ok w \<and> (\<exists>j. marshal_Refinery r = Inr j)"
  by (auto simp: saveState_def split: sum.splits write_result.splits)

lemma saveState_written:
  assumes "snd (saveState m w r) = None"
  shows "\<exists>j. marshal_Refinery r = Inr j \<and> saveState m w r = (w\<lparr>disk := Document j\<rparr>, None)"
  using assms by (auto simp: saveState_def split: sum.splits if_splits write_result.splits)

lemma saveState_untouched:
  "\<not> mkdir_ok w \<or> write_file w = OpenFailed \<or> (\<exists>e. marshal_Refinery r = Inl e) \<Longrightarrow>
     fst (saveState m w r) = w \<and> snd (saveState m w r) \<noteq> None"
  by (auto simp: saveState_def split: sum.splits)

lemma saveState_cut_off:
  "mkdir_ok w \<Longrightarrow> write_file w = WriteFailed \<Longrightarrow> marshal_Refinery r = Inr j \<Longrightarrow>
     saveState m w r = (w\<lparr>disk := Invalid\<rparr>, Some IOError)"
  by (simp add: saveState_def)


lemma saveState_cases:
  "fst (saveState m w r) = w \<or> fst (saveState m w r) = w\<lparr>disk := Invalid\<rparr> \<or>
   (\<exists>j. marshal_Refinery r = Inr j \<and> fst (saveState m w r) = w\<lparr>disk := Document j\<rparr>)"
  by (auto simp: saveState_def split: sum.splits write_result.splits)

lemma saveState_error:
  "snd (saveState m w r) = Some e \<Longrightarrow> e = IOError \<or> e = MarshalError"
  by (auto simp: saveState_def marshal_Refinery_def marshal_omitempty_def marshal_time_def
      marshal_MergeRequest_def split: sum.splits if_splits option.splits write_result.splits)

lemma load_after_save:
  assumes "snd (saveState m w r) = None"
  shows "loadState m (fst (saveState m w r)) = Inr (coerce_Refinery r)"
proof -
  from saveState_written [OF assms] obtain j where
    j: "marshal_Refinery r = Inr j" "saveState m w r = (w\<lparr>disk := Document j\<rparr>, None)"
    by blast
  from Unmarshal_marshal [OF j(1)] j(2) show ?thesis by (simp add: loadState_def)
qed

lemma loadState_Document_storable:
  assumes "loadState m w = Inr r" and "disk w \<noteq> NotExist"
  shows "storable_Refinery r"
  using assms by (cases "disk w") (auto simp: loadState_def dest: Unmarshal_storable)

subsection \<open>Loading, liveness and the sample worlds\<close>

lemma decode_members_error:
  assumes step: "\<And>kv r e. f kv r = Inl e \<Longrightarrow> e = DecodeError"
  shows "decode_members f kvs r = Inl e \<Longrightarrow> e = DecodeError"
proof (induction kvs arbitrary: r)
  case Nil
  then show ?case by simp
next
  case (Cons kv kvs)
  then show ?case using step by (auto split: sum.splits)
qed

lemma decode_string_error: "decode_string v cur = Inl e \<Longrightarrow> e = DecodeError"
  by (cases v) auto

lemma decode_int_error: "decode_int v cur = Inl e \<Longrightarrow> e = DecodeError"
  by (cases v) (auto split: if_splits)

lemma decode_time_error: "decode_time v cur = Inl e \<Longrightarrow> e = DecodeError"
  by (cases v) (auto split: if_splits)

lemma decode_time_ptr_error: "decode_time_ptr v cur = Inl e \<Longrightarrow> e = DecodeError"
  by (cases v) (auto simp: then_set_def split: if_splits sum.splits)

lemma set_MergeRequest_field_error:
  "set_MergeRequest_field kv mr = Inl e \<Longrightarrow> e = DecodeError"
  by (cases kv)
     (auto simp: set_MergeRequest_field_def then_set_def split: if_splits sum.splits
       dest: decode_string_error decode_time_error)

lemma decode_members_MergeRequest_error:
  "decode_members set_MergeRequest_field kvs mr = Inl e \<Longrightarrow> e = DecodeError"
  by (erule decode_members_error [rotated]) (erule set_MergeRequest_field_error)

lemma decode_MergeRequest_ptr_error:
  "decode_MergeRequest_ptr v cur = Inl e \<Longrightarrow> e = DecodeError"
  by (cases v)
     (auto simp: then_set_def split: sum.splits dest: decode_members_MergeRequest_error)

lemma set_RefineryStats_field_error:
  "set_RefineryStats_field kv st = Inl e \<Longrightarrow> e = DecodeError"
  by (cases kv)
     (auto simp: set_RefineryStats_field_def then_set_def split: if_splits sum.splits
       dest: decode_int_error)

lemma decode_members_RefineryStats_error:
  "decode_members set_RefineryStats_field kvs st = Inl e \<Longrightarrow> e = DecodeError"
  by (erule decode_members_error [rotated]) (erule set_RefineryStats_field_error)

lemma decode_RefineryStats_error:
  "decode_RefineryStats v cur = Inl e \<Longrightarrow> e = DecodeError"
  by (cases v) (auto dest: decode_members_RefineryStats_error)

lemma set_Refinery_field_error:
  "set_Refinery_field kv r = Inl e \<Longrightarrow> e = DecodeError"
  by (cases kv)
     (auto simp: set_Refinery_field_def then_set_def split: if_splits sum.splits
       dest: decode_string_error decode_int_error decode_time_ptr_error
         decode_MergeRequest_ptr_error decode_RefineryStats_error)

lemma decode_members_Refinery_error:
  "decode_members set_Refinery_field kvs r = Inl e \<Longrightarrow> e = DecodeError"
  by (erule decode_members_error [rotated]) (erule set_Refinery_field_error)

lemma Unmarshal_error: "Unmarshal j r = Inl e \<Longrightarrow> e = DecodeError"
  by (cases j) (auto dest: decode_members_Refinery_error)

lemma loadState_error: "loadState m w = Inl e \<Longrightarrow> e = IOError \<or> e = DecodeError"
  by (cases "disk w") (auto simp: loadState_def dest: Unmarshal_error)

lemma loadState_NotExist:
  "disk w = NotExist \<Longrightarrow>
     loadState m w = Inr (zero_Refinery\<lparr>RigName := Name (rig m), State := StateStopped\<rparr>)"
  by (simp add: loadState_def)

lemma loadState_not_Stopped:
  assumes "loadState m w = Inr r" and "State r \<noteq> StateStopped"
  shows "storable_Refinery r"
proof -
  from assms have "disk w \<noteq> NotExist"
    by (auto simp: loadState_def)
  from loadState_Document_storable [OF assms(1) this] show ?thesis .
qed

lemma processExists_never: "\<not> processExists w pid"
  by (simp add: processExists_def FindProcess_def Process_Signal_def)

lemma valid_utf8_states: "valid_utf8 StateStopped" "valid_utf8 StateRunning"
  by code_simp+

lemma storable_Stopped:
  "storable_Refinery r \<Longrightarrow> storable_Refinery (r\<lparr>State := StateStopped, PID := 0\<rparr>)"
  by (simp add: storable_Refinery_def valid_utf8_states)

lemma save_storable:
  assumes "storable_Refinery r" and "mkdir_ok w" and "write_ok w"
  shows "snd (saveState m w r) = None \<and> loadState m (fst (saveState m w r)) = Inr r"
proof -
  from storable_marshal [OF assms(1)] assms(2,3)
  have s: "snd (saveState m w r) = None" by (simp add: saveState_None_iff)
  from load_after_save [OF s] utf8_coerce_Refinery [OF storable_utf8 [OF assms(1)]] s
  show ?thesis by simp
qed





lemma Status_heals:
  assumes "loadState m w = Inr r" and "State r = StateRunning" and "0 <s PID r"
  shows "Manager_Status m w =
     (fst (saveState m w (r\<lparr>State := StateStopped, PID := 0\<rparr>)),
      Inr (r\<lparr>State := StateStopped, PID := 0\<rparr>))"
  using assms by (simp add: Manager_Status_def processExists_never Let_def split: prod.splits)

lemma StateRunning_neq: "StateRunning \<noteq> StateStopped" "StateRunning \<noteq> StatePaused"
  "StateStopped \<noteq> StatePaused"
  by (simp_all add: StateRunning_def StateStopped_def StatePaused_def)

lemma marshal_running_record: "marshal_Refinery running_record = Inr running_doc"
  by code_simp

lemma utf8_running_record: "utf8_Refinery running_record"
  by code_simp

lemma Unmarshal_running_doc: "Unmarshal running_doc zero_Refinery = Inr running_record"
  using Unmarshal_marshal [OF marshal_running_record]
    utf8_coerce_Refinery [OF utf8_running_record] by simp

lemma running_record_facts:
  "State running_record = StateRunning" "0 <s PID running_record" "PID running_record = 4242"
  by (simp_all add: running_record_def word_sless_alt)




lemma load_live_world: "loadState mgr0 live_world = Inr running_record"
  by (simp add: loadState_def live_world_def world0_def Unmarshal_running_doc)

subsection \<open>Stop\<close>

lemma Process_Signal_store:
  "disk (fst (Process_Signal w p s)) = disk w"
  "mkdir_ok (fst (Process_Signal w p s)) = mkdir_ok w"
  "write_file (fst (Process_Signal w p s)) = write_file w"
  by (auto simp: Process_Signal_def split: option.splits)

lemma loadState_disk: "disk w' = disk w \<Longrightarrow> loadState m w' = loadState m w"
  by (simp add: loadState_def)

lemma Stop_running:
  assumes "loadState m w = Inr r" and "State r = StateRunning"
  shows "\<exists>w1. Manager_Stop m w = saveState m w1 (r\<lparr>State := StateStopped, PID := 0\<rparr>) \<and>
     disk w1 = disk w \<and> mkdir_ok w1 = mkdir_ok w \<and> write_file w1 = write_file w"
proof (cases "0 <s PID r \<and> PID r \<noteq> self_pid w")
  case True
  let ?w1 = "fst (Process_Signal w (PID r) (Some Interrupt))"
  have "Manager_Stop m w = saveState m ?w1 (r\<lparr>State := StateStopped, PID := 0\<rparr>)"
    using assms True by (simp add: Manager_Stop_def Let_def FindProcess_def)
  then show ?thesis using Process_Signal_store [of w "PID r" "Some Interrupt"] by blast
next
  case False
  have "Manager_Stop m w = saveState m w (r\<lparr>State := StateStopped, PID := 0\<rparr>)"
    using assms False by (auto simp: Manager_Stop_def Let_def)
  then show ?thesis by blast
qed

lemma Stop_not_running:
  assumes "loadState m w = Inr r" and "State r \<noteq> StateRunning"
  shows "Manager_Stop m w = (w, Some ErrNotRunning)"
  using assms by (simp add: Manager_Stop_def)

lemma load_world0: "loadState mgr0 world0 =
    Inr (zero_Refinery\<lparr>RigName := ''gastown'', State := StateStopped\<rparr>)"
  by (simp add: loadState_def world0_def mgr0_def NewManager_def)

subsection \<open>Start\<close>

lemma run_store:
  "disk (fst (run m w r)) = disk w" "snd (run m w r) = Blocked"
  by (simp_all add: run_def)

lemma Start_proceeds:
  assumes "loadState m w = Inr r"
  shows "\<exists>w1. mkdir_ok w1 = mkdir_ok w \<and> write_ok w1 = write_ok w \<and>
      (let r' = r\<lparr>State := StateRunning, StartedAt := Some (clock w (ticks w)),
                   PID := self_pid w\<rparr>
       in case snd (saveState m w1 r') of
            Some e \<Rightarrow> Manager_Start m foreground w = (fst (saveState m w1 r'), Returned (Some e))
          | None \<Rightarrow>
              disk (fst (Manager_Start m foreground w)) = disk (fst (saveState m w1 r')) \<and>
              snd (Manager_Start m foreground w) =
                (if foreground then Blocked else Returned None))"
proof -
  let ?w1 = "w\<lparr>ticks := Suc (ticks w)\<rparr>"
  have "mkdir_ok ?w1 = mkdir_ok w \<and> write_ok ?w1 = write_ok w \<and>
      (let r' = r\<lparr>State := StateRunning, StartedAt := Some (clock w (ticks w)),
                   PID := self_pid w\<rparr>
       in case snd (saveState m ?w1 r') of
            Some e \<Rightarrow> Manager_Start m foreground w = (fst (saveState m ?w1 r'), Returned (Some e))
          | None \<Rightarrow>
              disk (fst (Manager_Start m foreground w)) = disk (fst (saveState m ?w1 r')) \<and>
              snd (Manager_Start m foreground w) =
                (if foreground then Blocked else Returned None))"
    using assms
    by (auto simp: Manager_Start_def processExists_never time_Now_def Let_def run_def
        split: prod.splits option.splits)
  then show ?thesis by blast
qed

lemma Start_load_error:
  "loadState m w = Inl e \<Longrightarrow> Manager_Start m foreground w = (w, Returned (Some e))"
  by (simp add: Manager_Start_def)

lemma Start_never_AlreadyRunning:
  "snd (Manager_Start m foreground w) \<noteq> Returned (Some ErrAlreadyRunning)"
proof (cases "loadState m w")
  case (Inl e)
  from loadState_error [OF this] Start_load_error [OF Inl] show ?thesis by auto
next
  case (Inr r)
  from Start_proceeds [OF Inr, of foreground] obtain w1 r' where
    c: "case snd (saveState m w1 r') of
            Some e \<Rightarrow> Manager_Start m foreground w = (fst (saveState m w1 r'), Returned (Some e))
          | None \<Rightarrow>
              disk (fst (Manager_Start m foreground w)) = disk (fst (saveState m w1 r')) \<and>
              snd (Manager_Start m foreground w) =
                (if foreground then Blocked else Returned None)"
    by (auto simp: Let_def)
  show ?thesis
  proof (cases "snd (saveState m w1 r')")
    case None
    with c show ?thesis by auto
  next
    case (Some e)
    from saveState_error [OF Some] Some c show ?thesis by auto
  qed
qed

lemma Start_success:
  assumes "snd (Manager_Start m foreground w) = Returned None \<or>
           snd (Manager_Start m foreground w) = Blocked"
  shows "\<exists>r. loadState m w = Inr r \<and>
     loadState m (fst (Manager_Start m foreground w)) =
       Inr (coerce_Refinery (r\<lparr>State := StateRunning, StartedAt := Some (clock w (ticks w)),
                               PID := self_pid w\<rparr>)) \<and>
     snd (Manager_Start m foreground w) = (if foreground then Blocked else Returned None)"
proof (cases "loadState m w")
  case (Inl e)
  from Start_load_error [OF Inl, of foreground] assms show ?thesis by auto
next
  case (Inr r)
  let ?r' = "r\<lparr>State := StateRunning, StartedAt := Some (clock w (ticks w)), PID := self_pid w\<rparr>"
  from Start_proceeds [OF Inr, of foreground] obtain w1 where
    c: "case snd (saveState m w1 ?r') of
            Some e \<Rightarrow> Manager_Start m foreground w = (fst (saveState m w1 ?r'), Returned (Some e))
          | None \<Rightarrow>
              disk (fst (Manager_Start m foreground w)) = disk (fst (saveState m w1 ?r')) \<and>
              snd (Manager_Start m foreground w) =
                (if foreground then Blocked else Returned None)"
    by (auto simp: Let_def)
  show ?thesis
  proof (cases "snd (saveState m w1 ?r')")
    case (Some e)
    with c assms show ?thesis by auto
  next
    case None
    with c have d: "disk (fst (Manager_Start m foreground w)) = disk (fst (saveState m w1 ?r'))"
      and o: "snd (Manager_Start m foreground w) = (if foreground then Blocked else Returned None)"
      by simp_all
    from loadState_disk [OF d] load_after_save [OF None] Inr o show ?thesis by simp
  qed
qed

lemma Start_world0:
  "snd (Manager_Start mgr0 foreground world0) = (if foreground then Blocked else Returned None)"
proof -
  let ?r' = "zero_Refinery\<lparr>RigName := ''gastown'', State := StateRunning,
      StartedAt := Some 1700000000000000000, PID := 100\<rparr>"
  have s: "storable_Refinery ?r'" by code_simp
  from Start_proceeds [OF load_world0, of foreground] obtain w1 where
    w1: "mkdir_ok w1" "write_ok w1" and
    c: "case snd (saveState mgr0 w1 ?r') of
            Some e \<Rightarrow> Manager_Start mgr0 foreground world0 =
              (fst (saveState mgr0 w1 ?r'), Returned (Some e))
          | None \<Rightarrow>
              disk (fst (Manager_Start mgr0 foreground world0)) =
                disk (fst (saveState mgr0 w1 ?r')) \<and>
              snd (Manager_Start mgr0 foreground world0) =
                (if foreground then Blocked else Returned None)"
    by (auto simp: Let_def world0_def)
  from save_storable [OF s w1, of mgr0] c show ?thesis by simp
qed

subsection \<open>More sample worlds\<close>

lemma Stop_persists:
  assumes "loadState m w = Inr r" and "State r = StateRunning"
    and "mkdir_ok w" and "write_ok w"
  shows "snd (Manager_Stop m w) = None \<and>
     loadState m (fst (Manager_Stop m w)) = Inr (r\<lparr>State := StateStopped, PID := 0\<rparr>)"
proof -
  let ?r' = "r\<lparr>State := StateStopped, PID := 0\<rparr>"
  from Stop_running [OF assms(1,2)] assms(3,4) obtain w1 where
    w1: "Manager_Stop m w = saveState m w1 ?r'" "mkdir_ok w1" "write_ok w1"
    by auto
  have "State r \<noteq> StateStopped" using assms(2) StateRunning_neq by simp
  from storable_Stopped [OF loadState_not_Stopped [OF assms(1) this]]
  have "storable_Refinery ?r'" .
  from save_storable [OF this w1(2,3), of m] w1(1) show ?thesis by simp
qed

lemma utf8_full_record: "utf8_Refinery full_record"
  by code_simp

lemma save_full_record: "snd (saveState mgr0 world0 full_record) = None"
  by code_simp

lemma busy_world_facts:
  "loadState mgr0 busy_world = Inr full_record" "mkdir_ok busy_world" "write_ok busy_world"
proof -
  from load_after_save [OF save_full_record] utf8_coerce_Refinery [OF utf8_full_record]
  show "loadState mgr0 busy_world = Inr full_record" by (simp add: busy_world_def)
  show "mkdir_ok busy_world" "write_ok busy_world"
    using saveState_written [OF save_full_record]
    by (auto simp: busy_world_def world0_def)
qed

lemma full_record_facts:
  "State full_record = StateRunning" "CurrentMR full_record = Some sample_mr"
  "0 <s PID full_record"
  by (simp_all add: full_record_def word_sless_alt)

subsection \<open>Start after Stop\<close>

lemma Process_Signal_env:
  "clock (fst (Process_Signal w p s)) = clock w"
  "ticks (fst (Process_Signal w p s)) = ticks w"
  "self_pid (fst (Process_Signal w p s)) = self_pid w"
  by (auto simp: Process_Signal_def split: option.splits)

lemma saveState_env:
  "clock (fst (saveState m w r)) = clock w"
  "ticks (fst (saveState m w r)) = ticks w"
  "self_pid (fst (saveState m w r)) = self_pid w"
  "mkdir_ok (fst (saveState m w r)) = mkdir_ok w"
  "write_file (fst (saveState m w r)) = write_file w"
  by (auto simp: saveState_def split: sum.splits write_result.splits)

lemma Stop_env:
  "clock (fst (Manager_Stop m w)) = clock w"
  "ticks (fst (Manager_Stop m w)) = ticks w"
  "self_pid (fst (Manager_Stop m w)) = self_pid w"
  "mkdir_ok (fst (Manager_Stop m w)) = mkdir_ok w"
  "write_file (fst (Manager_Stop m w)) = write_file w"
  by (auto simp: Manager_Stop_def Let_def FindProcess_def saveState_env Process_Signal_env
      Process_Signal_store split: sum.splits)

lemma Start_after_Stop:
  assumes "loadState m w = Inr r" and "State r = StateRunning"
    and "mkdir_ok w" and "write_ok w" and "rfc3339_ok (clock w (ticks w))"
  shows "snd (Manager_Stop m w) = None \<and>
     snd (Manager_Start m False (fst (Manager_Stop m w))) = Returned None \<and>
     loadState m (fst (Manager_Start m False (fst (Manager_Stop m w)))) =
       Inr (r\<lparr>State := StateRunning, PID := self_pid w,
              StartedAt := Some (clock w (ticks w))\<rparr>)"
proof -
  let ?w1 = "fst (Manager_Stop m w)"
  let ?r1 = "r\<lparr>State := StateStopped, PID := 0\<rparr>"
  let ?r2 = "r\<lparr>State := StateRunning, StartedAt := Some (clock w (ticks w)),
      PID := self_pid w\<rparr>"
  from Stop_persists [OF assms(1-4)]
  have stop: "snd (Manager_Stop m w) = None" and l1: "loadState m ?w1 = Inr ?r1" by simp_all
  have "State r \<noteq> StateStopped" using assms(2) StateRunning_neq by simp
  from loadState_not_Stopped [OF assms(1) this] have sr: "storable_Refinery r" .
  have s2: "storable_Refinery ?r2"
    using sr assms(5) by (simp add: storable_Refinery_def valid_utf8_states)
  from Start_proceeds [OF l1, of False] obtain w2 where
    w2: "mkdir_ok w2" "write_ok w2" and
    c: "case snd (saveState m w2 ?r2) of
            Some e \<Rightarrow> Manager_Start m False ?w1 = (fst (saveState m w2 ?r2), Returned (Some e))
          | None \<Rightarrow>
              disk (fst (Manager_Start m False ?w1)) = disk (fst (saveState m w2 ?r2)) \<and>
              snd (Manager_Start m False ?w1) = (if False then Blocked else Returned None)"
    using assms(3,4) by (auto simp: Let_def Stop_env)
  from save_storable [OF s2 w2, of m] c
  have d: "disk (fst (Manager_Start m False ?w1)) = disk (fst (saveState m w2 ?r2))"
    and o: "snd (Manager_Start m False ?w1) = Returned None"
    and l: "loadState m (fst (saveState m w2 ?r2)) = Inr ?r2"
    by simp_all
  have "?r2 = r\<lparr>State := StateRunning, PID := self_pid w,
              StartedAt := Some (clock w (ticks w))\<rparr>"
    by simp
  with loadState_disk [OF d] l stop o show ?thesis by simp
qed

subsection \<open>The queue\<close>

lemma branchToMR_result:
  "snd (branchToMR w b) = None \<longleftrightarrow> \<not> accepted b"
  "snd (branchToMR w b) = Some mr \<Longrightarrow> Branch mr = b"
  by (auto simp: branchToMR_def accepted_def time_Now_def Let_def split: option.splits)

lemma queue_branches_items:
  "\<exists>new. snd (queue_branches w bs pos items) = items @ new \<and>
     map Position new = map (\<lambda>k. pos + int k) [0..<length (filter accepted bs)] \<and>
     map (\<lambda>i. Branch (MR i)) new = filter accepted bs"
proof (induction bs arbitrary: w pos items)
  case Nil
  then show ?case by simp
next
  case (Cons b bs)
  obtain w1 mr where b: "branchToMR w b = (w1, mr)" by (cases "branchToMR w b")
  show ?case
  proof (cases mr)
    case None
    with b have na: "\<not> accepted b" using branchToMR_result(1) [of w b] by simp
    from Cons.IH [of w1 pos items] obtain new where
      "snd (queue_branches w1 bs pos items) = items @ new"
      "map Position new = map (\<lambda>k. pos + int k) [0..<length (filter accepted bs)]"
      "map (\<lambda>i. Branch (MR i)) new = filter accepted bs" by blast
    with b None na show ?thesis by simp
  next
    case (Some mr')
    with b have a: "accepted b" and br: "Branch mr' = b"
      using branchToMR_result [of w b] by auto
    obtain w2 age where f: "formatAge w1 (CreatedAt mr') = (w2, age)"
      by (cases "formatAge w1 (CreatedAt mr')")
    let ?item = "\<lparr>Position = pos, MR = mr', Age = age\<rparr>"
    from Cons.IH [of w2 "pos + 1" "items @ [?item]"] obtain new where
      n: "snd (queue_branches w2 bs (pos + 1) (items @ [?item])) = (items @ [?item]) @ new"
      "map Position new = map (\<lambda>k. pos + 1 + int k) [0..<length (filter accepted bs)]"
      "map (\<lambda>i. Branch (MR i)) new = filter accepted bs" by blast
    have shift: "map (\<lambda>k. pos + int k) [0..<Suc (length (filter accepted bs))] =
        pos # map (\<lambda>k. pos + 1 + int k) [0..<length (filter accepted bs)]"
      by (simp add: upt_rec [of 0] map_Suc_upt [symmetric] del: upt_Suc) 
    show ?thesis
      using b Some f n a br shift
      by (intro exI [of _ "?item # new"]) simp
  qed
qed


lemma discover_total: "\<exists>branches. discoverWorkBranches m w = Inr branches"
  by (cases "git_branch w") (simp_all add: discoverWorkBranches_def)

lemma Queue_items:
  assumes "loadState m w = Inr r" and "discoverWorkBranches m w = Inr branches"
  shows "\<exists>new. snd (Manager_Queue m w) =
        Inr ((case CurrentMR r of None \<Rightarrow> []
              | Some cur \<Rightarrow> [\<lparr>Position = 0, MR = cur,
                   Age = snd (formatAge w (CreatedAt cur))\<rparr>]) @ new) \<and>
     map Position new = map (\<lambda>k. 1 + int k) [0..<length (filter accepted branches)] \<and>
     map (\<lambda>i. Branch (MR i)) new = filter accepted branches"
proof (cases "CurrentMR r")
  case None
  from queue_branches_items [of w branches 1 "[]"] obtain new where
    "snd (queue_branches w branches 1 []) = [] @ new"
    "map Position new = map (\<lambda>k. 1 + int k) [0..<length (filter accepted branches)]"
    "map (\<lambda>i. Branch (MR i)) new = filter accepted branches" by blast
  with assms None show ?thesis
    by (auto simp: Manager_Queue_def Let_def split: prod.splits)
next
  case (Some cur)
  obtain w0 age where f: "formatAge w (CreatedAt cur) = (w0, age)"
    by (cases "formatAge w (CreatedAt cur)")
  let ?item = "\<lparr>Position = 0, MR = cur, Age = age\<rparr>"
  from queue_branches_items [of w0 branches 1 "[?item]"] obtain new where
    "snd (queue_branches w0 branches 1 [?item]) = [?item] @ new"
    "map Position new = map (\<lambda>k. 1 + int k) [0..<length (filter accepted branches)]"
    "map (\<lambda>i. Branch (MR i)) new = filter accepted branches" by blast
  with assms Some f show ?thesis
    by (auto simp: Manager_Queue_def Let_def split: prod.splits)
qed

lemma discovered_sample:
  "collect_branches
     (strings_Split_lf
        (''  origin/polecat/w1/iss1'' @ [CHR 0x0A] @ ''  origin/polecat/w2'' @ [CHR 0x0A])) [] =
   [''polecat/w1/iss1'', ''polecat/w2'']"
  by code_simp

lemma accepted_sample:
  "filter accepted [''polecat/w1/iss1'', ''polecat/w2''] = [''polecat/w1/iss1'', ''polecat/w2'']"
  by code_simp

lemma queue_world_facts:
  "loadState mgr0 queue_world = Inr full_record"
  "discoverWorkBranches mgr0 queue_world = Inr [''polecat/w1/iss1'', ''polecat/w2'']"
proof -
  have "disk queue_world = disk busy_world" by (simp add: queue_world_def)
  from loadState_disk [OF this] busy_world_facts(1)
  show "loadState mgr0 queue_world = Inr full_record" by simp
  show "discoverWorkBranches mgr0 queue_world = Inr [''polecat/w1/iss1'', ''polecat/w2'']"
    using discovered_sample by (simp add: discoverWorkBranches_def queue_world_def)
qed

lemma Queue_error:
  assumes "snd (Manager_Queue m w) = Inl e"
  shows "loadState m w = Inl e"
proof (cases "loadState m w")
  case (Inl e')
  from discover_total [of m w] obtain bs where "discoverWorkBranches m w = Inr bs" by blast
  with Inl assms show ?thesis by (simp add: Manager_Queue_def)
next
  case (Inr r)
  from discover_total [of m w] obtain bs where bs: "discoverWorkBranches m w = Inr bs" by blast
  from Queue_items [OF Inr bs] assms show ?thesis by auto
qed

lemma Queue_denied_world: "snd (Manager_Queue mgr0 denied_world) = Inr []"
  by (simp add: Manager_Queue_def discoverWorkBranches_def loadState_def denied_world_def
      world0_def zero_Refinery_def)

subsection \<open>The worlds the lifecycle operations reach\<close>

lemma time_Now_disk: "disk (fst (time_Now w)) = disk w"
  by (simp add: time_Now_def)

lemma branchToMR_disk: "disk (fst (branchToMR w b)) = disk w"
  by (simp add: branchToMR_def time_Now_def Let_def split: option.splits)

lemma formatAge_disk: "disk (fst (formatAge w t)) = disk w"
  by (simp add: formatAge_def time_Since_def time_Now_def)

lemma queue_branches_disk: "disk (fst (queue_branches w bs pos items)) = disk w"
proof (induction bs arbitrary: w pos items)
  case Nil
  then show ?case by simp
next
  case (Cons b bs)
  obtain w1 mr where b: "branchToMR w b = (w1, mr)" by (cases "branchToMR w b")
  then have w1: "disk w1 = disk w" using branchToMR_disk [of w b] by simp
  show ?case
  proof (cases mr)
    case None
    with b w1 Cons.IH [of w1 pos items] show ?thesis by simp
  next
    case (Some mr')
    obtain w2 age where f: "formatAge w1 (CreatedAt mr') = (w2, age)"
      by (cases "formatAge w1 (CreatedAt mr')")
    then have "disk w2 = disk w1" using formatAge_disk [of w1 "CreatedAt mr'"] by simp
    with b Some f w1
      Cons.IH [of w2 "pos + 1" "items @ [\<lparr>Position = pos, MR = mr', Age = age\<rparr>]"]
    show ?thesis by simp
  qed
qed

lemma Queue_disk: "disk (fst (Manager_Queue m w)) = disk w"
proof (cases "loadState m w")
  case (Inl e)
  then show ?thesis
    by (auto simp: Manager_Queue_def split: sum.splits)
next
  case (Inr r)
  from discover_total [of m w] obtain bs where bs: "discoverWorkBranches m w = Inr bs" by blast
  show ?thesis
  proof (cases "CurrentMR r")
    case None
    with Inr bs queue_branches_disk [of w bs 1 "[]"] show ?thesis
      by (auto simp: Manager_Queue_def Let_def split: prod.splits)
  next
    case (Some cur)
    obtain w0 age where f: "formatAge w (CreatedAt cur) = (w0, age)"
      by (cases "formatAge w (CreatedAt cur)")
    then have "disk w0 = disk w" using formatAge_disk [of w "CreatedAt cur"] by simp
    with Inr bs Some f queue_branches_disk [of w0 bs 1 "[\<lparr>Position = 0, MR = cur, Age = age\<rparr>]"]
    show ?thesis
      by (auto simp: Manager_Queue_def Let_def split: prod.splits)
  qed
qed

lemma save_outcome:
  "disk (fst (saveState m w r)) = disk w \<or>
   loadState m (fst (saveState m w r)) = Inr (coerce_Refinery r) \<or>
   loadState m (fst (saveState m w r)) = Inl DecodeError"
  using saveState_cases [of m w r] Unmarshal_marshal [of r]
  by (auto simp: loadState_def)


lemma settled_default:
  "settled (zero_Refinery\<lparr>RigName := n, State := StateStopped\<rparr>)"
  by (simp add: settled_def zero_Refinery_def)

lemma settled_Start:
  "settled r \<Longrightarrow>
     settled (coerce_Refinery (r\<lparr>State := StateRunning, StartedAt := t, PID := p\<rparr>))"
  using valid_utf8_states(2) StateRunning_neq
  by (simp add: settled_def coerce_Refinery_def valid_utf8_def)

lemma settled_Stopped:
  "settled r \<Longrightarrow> settled (coerce_Refinery (r\<lparr>State := StateStopped, PID := 0\<rparr>))"
  by (simp add: settled_def coerce_Refinery_def)

lemma Start_outcome:
  assumes "loadState m w = Inr r"
  shows "disk (fst (Manager_Start m foreground w)) = disk w \<or>
     loadState m (fst (Manager_Start m foreground w)) =
       Inr (coerce_Refinery (r\<lparr>State := StateRunning, StartedAt := Some (clock w (ticks w)),
                               PID := self_pid w\<rparr>)) \<or>
     loadState m (fst (Manager_Start m foreground w)) = Inl DecodeError"
proof -
  let ?w1 = "w\<lparr>ticks := Suc (ticks w)\<rparr>"
  let ?r' = "r\<lparr>State := StateRunning, StartedAt := Some (clock w (ticks w)), PID := self_pid w\<rparr>"
  have d: "disk (fst (Manager_Start m foreground w)) = disk (fst (saveState m ?w1 ?r'))"
    using assms
    by (auto simp: Manager_Start_def processExists_never time_Now_def Let_def run_def
        split: prod.splits option.splits)
  from save_outcome [of m ?w1 ?r'] show ?thesis
  proof (elim disjE)
    assume "disk (fst (saveState m ?w1 ?r')) = disk ?w1"
    with d show ?thesis by simp
  next
    assume "loadState m (fst (saveState m ?w1 ?r')) = Inr (coerce_Refinery ?r')"
    with loadState_disk [OF d] show ?thesis by simp
  next
    assume "loadState m (fst (saveState m ?w1 ?r')) = Inl DecodeError"
    with loadState_disk [OF d] show ?thesis by simp
  qed
qed

lemma Stop_outcome:
  assumes "loadState m w = Inr r"
  shows "disk (fst (Manager_Stop m w)) = disk w \<or>
     loadState m (fst (Manager_Stop m w)) =
       Inr (coerce_Refinery (r\<lparr>State := StateStopped, PID := 0\<rparr>)) \<or>
     loadState m (fst (Manager_Stop m w)) = Inl DecodeError"
proof (cases "State r = StateRunning")
  case False
  from Stop_not_running [OF assms this] show ?thesis by simp
next
  case True
  let ?r' = "r\<lparr>State := StateStopped, PID := 0\<rparr>"
  from Stop_running [OF assms True] obtain w1 where
    w1: "Manager_Stop m w = saveState m w1 ?r'" "disk w1 = disk w" by blast
  from save_outcome [of m w1 ?r'] w1 show ?thesis by auto
qed

lemma Status_outcome:
  assumes "loadState m w = Inr r"
  shows "fst (Manager_Status m w) = w \<and> snd (Manager_Status m w) = Inr r \<or>
     snd (Manager_Status m w) = Inr (r\<lparr>State := StateStopped, PID := 0\<rparr>) \<and>
     (disk (fst (Manager_Status m w)) = disk w \<or>
      loadState m (fst (Manager_Status m w)) =
        Inr (coerce_Refinery (r\<lparr>State := StateStopped, PID := 0\<rparr>)) \<or>
      loadState m (fst (Manager_Status m w)) = Inl DecodeError)"
proof (cases "State r = StateRunning \<and> 0 <s PID r")
  case False
  with assms show ?thesis by (auto simp: Manager_Status_def)
next
  case True
  let ?r' = "r\<lparr>State := StateStopped, PID := 0\<rparr>"
  from Status_heals [OF assms] True
  have "Manager_Status m w = (fst (saveState m w ?r'), Inr ?r')" by simp
  with save_outcome [of m w ?r'] show ?thesis by auto
qed

lemma Status_load_error:
  "loadState m w = Inl e \<Longrightarrow> Manager_Status m w = (w, Inl e)"
  by (simp add: Manager_Status_def)

lemma Stop_load_error:
  "loadState m w = Inl e \<Longrightarrow> Manager_Stop m w = (w, Some e)"
  by (simp add: Manager_Stop_def)

lemma reachable_settled:
  assumes "reachable m w" and "loadState m w = Inr r"
  shows "settled r"
  using assms
proof (induction arbitrary: r rule: reachable.induct)
  case (fresh w)
  then show ?case by (auto simp: loadState_def settled_default)
next
  case (after_Start w foreground)
  show ?case
  proof (cases "loadState m w")
    case (Inl e)
    from Start_load_error [OF this, of foreground] Inl after_Start.prems show ?thesis by simp
  next
    case (Inr r0)
    from Start_outcome [OF Inr, of foreground] show ?thesis
    proof (elim disjE)
      assume "disk (fst (Manager_Start m foreground w)) = disk w"
      from loadState_disk [OF this] after_Start.prems after_Start.IH show ?thesis by simp
    next
      assume "loadState m (fst (Manager_Start m foreground w)) =
        Inr (coerce_Refinery (r0\<lparr>State := StateRunning, StartedAt := Some (clock w (ticks w)),
                                PID := self_pid w\<rparr>))"
      with after_Start.prems have "r = coerce_Refinery
          (r0\<lparr>State := StateRunning, StartedAt := Some (clock w (ticks w)),
               PID := self_pid w\<rparr>)" by simp
      with settled_Start [OF after_Start.IH [OF Inr]] show ?thesis by simp
    next
      assume "loadState m (fst (Manager_Start m foreground w)) = Inl DecodeError"
      with after_Start.prems show ?thesis by simp
    qed
  qed
next
  case (after_Stop w)
  show ?case
  proof (cases "loadState m w")
    case (Inl e)
    from Stop_load_error [OF this] Inl after_Stop.prems show ?thesis by simp
  next
    case (Inr r0)
    from Stop_outcome [OF Inr] show ?thesis
    proof (elim disjE)
      assume "disk (fst (Manager_Stop m w)) = disk w"
      from loadState_disk [OF this] after_Stop.prems after_Stop.IH show ?thesis by simp
    next
      assume "loadState m (fst (Manager_Stop m w)) =
        Inr (coerce_Refinery (r0\<lparr>State := StateStopped, PID := 0\<rparr>))"
      with after_Stop.prems have "r = coerce_Refinery (r0\<lparr>State := StateStopped, PID := 0\<rparr>)"
        by simp
      with settled_Stopped [OF after_Stop.IH [OF Inr]] show ?thesis by simp
    next
      assume "loadState m (fst (Manager_Stop m w)) = Inl DecodeError"
      with after_Stop.prems show ?thesis by simp
    qed
  qed
next
  case (after_Status w)
  show ?case
  proof (cases "loadState m w")
    case (Inl e)
    from Status_load_error [OF this] Inl after_Status.prems show ?thesis by simp
  next
    case (Inr r0)
    from Status_outcome [OF Inr] after_Status.prems after_Status.IH [OF Inr]
      settled_Stopped [OF after_Status.IH [OF Inr]]
      loadState_disk [of "fst (Manager_Status m w)" w m] Inr
    show ?thesis by auto
  qed
next
  case (after_Queue w)
  from loadState_disk [OF Queue_disk] after_Queue show ?case by simp
next
  case (environment w w')
  from loadState_disk [OF environment.hyps(2)] environment show ?case by simp
qed

lemma reachable_Status_settled:
  assumes "reachable m w" and "snd (Manager_Status m w) = Inr r"
  shows "settled r"
proof (cases "loadState m w")
  case (Inl e)
  from Status_load_error [OF this] assms(2) show ?thesis by simp
next
  case (Inr r0)
  from reachable_settled [OF assms(1) Inr] have s: "settled r0" .
  then have "settled (r0\<lparr>State := StateStopped, PID := 0\<rparr>)" by (simp add: settled_def)
  with Status_outcome [OF Inr] assms(2) s show ?thesis by auto
qed

lemma settled_invariant: "settled r \<Longrightarrow> stopped_invariant r"
  by (simp add: settled_def stopped_invariant_def)

lemma Start_env:
  "mkdir_ok (fst (Manager_Start m foreground w)) = mkdir_ok w"
  "write_file (fst (Manager_Start m foreground w)) = write_file w"
  by (auto simp: Manager_Start_def time_Now_def Let_def run_def saveState_def
      split: sum.splits option.splits prod.splits if_splits write_result.splits)

lemma load_started_world:
  "loadState mgr0 (fst (Manager_Start mgr0 False world0)) =
     Inr (zero_Refinery\<lparr>RigName := ''gastown'', State := StateRunning,
            PID := 100, StartedAt := Some 1700000000000000000\<rparr>)"
proof -
  have o: "snd (Manager_Start mgr0 False world0) = Returned None"
    using Start_world0 [of False] by simp
  have c: "coerce_Refinery (zero_Refinery\<lparr>RigName := ''gastown'', State := StateRunning,
      StartedAt := Some 1700000000000000000, PID := 100\<rparr>) =
    zero_Refinery\<lparr>RigName := ''gastown'', State := StateRunning,
            PID := 100, StartedAt := Some 1700000000000000000\<rparr>"
    by code_simp
  from Start_success [of mgr0 False world0] o load_world0 c show ?thesis
    by (simp add: world0_def)
qed

lemma load_restarted_world:
  "loadState mgr0 restarted_world =
     Inr (zero_Refinery\<lparr>RigName := ''gastown'', State := StateStopped,
            StartedAt := Some 1700000000000000000\<rparr>)"
proof -
  let ?w1 = "fst (Manager_Start mgr0 False world0)"
  have e: "mkdir_ok ?w1" "write_ok ?w1" by (simp_all add: Start_env world0_def)
  from Stop_persists [OF load_started_world _ e] show ?thesis
    by (simp add: restarted_world_def zero_Refinery_def)
qed

lemma reachable_restarted_world: "reachable mgr0 restarted_world"
  unfolding restarted_world_def
  by (intro reachable.after_Stop reachable.after_Start reachable.fresh) (simp add: world0_def)

subsection \<open>Branch discovery\<close>

lemma Split_lf_no_lf: "l \<in> set (strings_Split_lf s) \<Longrightarrow> CHR 0x0A \<notin> set l"
proof (induction s arbitrary: l)
  case Nil
  then show ?case by simp
next
  case (Cons c cs)
  show ?case
  proof (cases "c = CHR 0x0A")
    case True
    with Cons show ?thesis by auto
  next
    case False
    show ?thesis
    proof (cases "strings_Split_lf cs")
      case Nil
      with Cons.prems False show ?thesis by simp
    next
      case (Cons l0 ls)
      with Cons.prems False Cons.IH show ?thesis by auto
    qed
  qed
qed

lemma trim_left_subset: "set (trim_left s) \<subseteq> set s"
proof (induction s rule: trim_left.induct)
  case (1 s)
  show ?case
  proof (cases "leading_space s = 0")
    case True
    then show ?thesis by (subst trim_left.simps) simp
  next
    case False
    have "trim_left s = trim_left (drop (leading_space s) s)"
      by (subst trim_left.simps) (simp add: False)
    with "1.IH" [OF False] set_drop_subset [of "leading_space s" s] show ?thesis by auto
  qed
qed

lemma trim_right_subset: "set (trim_right s) \<subseteq> set s"
proof (induction s rule: trim_right.induct)
  case (1 s)
  show ?case
  proof (cases "trailing_space s = 0")
    case True
    then show ?thesis by (subst trim_right.simps) simp
  next
    case False
    have "trim_right s = trim_right (take (length s - trailing_space s) s)"
      by (subst trim_right.simps) (simp add: False)
    with "1.IH" [OF False] set_take_subset [of "length s - trailing_space s" s]
    show ?thesis by auto
  qed
qed

lemma TrimSpace_subset: "set (strings_TrimSpace s) \<subseteq> set s"
  using trim_right_subset [of "trim_left s"] trim_left_subset [of s]
  by (auto simp: strings_TrimSpace_def)

lemma TrimPrefix_subset: "set (strings_TrimPrefix s p) \<subseteq> set s"
  using set_drop_subset [of "length p" s] by (auto simp: strings_TrimPrefix_def)

lemma collect_branches_no_lf:
  assumes "\<forall>l \<in> set lines. CHR 0x0A \<notin> set l" and "\<forall>b \<in> set acc. CHR 0x0A \<notin> set b"
  shows "\<forall>b \<in> set (collect_branches lines acc). CHR 0x0A \<notin> set b"
  using assms
proof (induction lines arbitrary: acc)
  case Nil
  then show ?case by simp
next
  case (Cons line lines)
  let ?b = "strings_TrimPrefix (strings_TrimSpace line) ''origin/''"
  have "CHR 0x0A \<notin> set ?b"
    using Cons.prems(1) TrimPrefix_subset [of "strings_TrimSpace line" "''origin/''"]
      TrimSpace_subset [of line] by auto
  with Cons.prems(2) have acc': "\<forall>b \<in> set (acc @ [?b]). CHR 0x0A \<notin> set b" by auto
  from Cons.prems(1) have lines: "\<forall>l \<in> set lines. CHR 0x0A \<notin> set l" by simp
  from Cons.IH [OF lines acc'] Cons.IH [OF lines Cons.prems(2)]
  show ?case by (simp add: Let_def)
qed

lemma discovered_no_line_feed:
  assumes "discoverWorkBranches m w = Inr branches" and "b \<in> set branches"
  shows "CHR 0x0A \<notin> set b"
proof (cases "git_branch w")
  case (CmdFailed f)
  with assms show ?thesis by (simp add: discoverWorkBranches_def)
next
  case (CmdOk out)
  have "\<forall>b \<in> set (collect_branches (strings_Split_lf out) []). CHR 0x0A \<notin> set b"
    by (rule collect_branches_no_lf) (auto dest: Split_lf_no_lf)
  with CmdOk assms show ?thesis by (auto simp: discoverWorkBranches_def)
qed

subsection \<open>Rounding to binary64\<close>

lemma pow2_powi: "pow2 e = 2 powi e"
  by (simp add: pow2_def power_int_def power_one_over inverse_eq_divide)

lemma bit_length_pos: "0 < n \<Longrightarrow> 0 < bit_length n"
  by (subst bit_length.simps) simp

lemma bit_length_bounds:
  "0 < n \<Longrightarrow> n < 2 ^ bit_length n \<and> 2 ^ (bit_length n - 1) \<le> n"
proof (induction n rule: bit_length.induct)
  case (1 n)
  have bl: "bit_length n = Suc (bit_length (n div 2))"
    using "1.prems" by (subst bit_length.simps) simp
  show ?case
  proof (cases "n div 2 = 0")
    case True
    with "1.prems" have "n = 1" by presburger
    moreover have "bit_length (0::int) = 0" by (subst bit_length.simps) simp
    ultimately show ?thesis using bl by simp
  next
    case False
    with "1.prems" have m: "0 < n div 2" by presburger
    from "1.IH" [OF _ m] "1.prems"
    have ih: "n div 2 < 2 ^ bit_length (n div 2)"
      "2 ^ (bit_length (n div 2) - 1) \<le> n div 2" by simp_all
    from bit_length_pos [OF m] obtain k where k: "bit_length (n div 2) = Suc k"
      by (cases "bit_length (n div 2)") auto
    from ih k have "n div 2 < 2 * 2 ^ k" "2 ^ k \<le> n div 2" by simp_all
    then have "n < 2 * (2 * 2 ^ k)" "2 * 2 ^ k \<le> n" by presburger+
    then show ?thesis using bl k by simp
  qed
qed

lemma round_half_even_bounds: "\<lfloor>x\<rfloor> \<le> round_half_even x \<and> round_half_even x \<le> \<lfloor>x\<rfloor> + 1"
  by (simp add: round_half_even_def Let_def)

lemma round_half_even_of_int: "round_half_even (of_int n) = n"
  by (simp add: round_half_even_def Let_def)

lemma round_half_even_mono:
  assumes "x \<le> y"
  shows "round_half_even x \<le> round_half_even y"
proof (cases "\<lfloor>x\<rfloor> = \<lfloor>y\<rfloor>")
  case False
  with assms have "\<lfloor>x\<rfloor> < \<lfloor>y\<rfloor>" using floor_mono [OF assms] by simp
  then show ?thesis
    using round_half_even_bounds [of x] round_half_even_bounds [of y] by linarith
next
  case True
  with assms have "x - of_int \<lfloor>x\<rfloor> \<le> y - of_int \<lfloor>y\<rfloor>" by simp
  with True show ?thesis by (auto simp: round_half_even_def Let_def)
qed


lemma binary_exponent_bounds:
  assumes "0 < x"
  shows "pow2 (binary_exponent x) \<le> x \<and> x < pow2 (binary_exponent x + 1)"
proof -
  obtain a b where q: "quotient_of x = (a, b)" by (cases "quotient_of x")
  have b: "0 < b" using quotient_of_denom_pos [OF q] .
  have x: "x = of_int a / of_int b" using quotient_of_div [OF q] .
  have a: "0 < a"
  proof (rule ccontr)
    assume "\<not> 0 < a"
    then have "of_int a \<le> (0::rat)" by simp
    with b have "of_int a / of_int b \<le> (0::rat)" by (simp add: divide_le_0_iff)
    with x assms show False by simp
  qed
  define la where "la = bit_length a"
  define lb where "lb = bit_length b"
  from bit_length_bounds [OF a] have ba: "a < 2 ^ la" "2 ^ (la - 1) \<le> a"
    by (simp_all add: la_def)
  from bit_length_bounds [OF b] have bb: "b < 2 ^ lb" "2 ^ (lb - 1) \<le> b"
    by (simp_all add: lb_def)
  have la: "0 < la" and lb: "0 < lb"
    using bit_length_pos [OF a] bit_length_pos [OF b] by (simp_all add: la_def lb_def)
  define k where "k = int la - int lb"
  have ra: "(of_int a :: rat) < 2 ^ la" "(2 :: rat) ^ (la - 1) \<le> of_int a"
    using ba by (metis of_int_less_numeral_power_cancel_iff, metis of_int_numeral of_int_power of_int_le_iff)
  have rb: "(of_int b :: rat) < 2 ^ lb" "(2 :: rat) ^ (lb - 1) \<le> of_int b"
    using bb by (metis of_int_less_numeral_power_cancel_iff, metis of_int_numeral of_int_power of_int_le_iff)
  have pb: "(0::rat) < of_int b" using b by simp
  have lower: "(2::rat) powi (k - 1) < x"
  proof -
    have "(2::rat) powi (k - 1) = 2 ^ (la - 1) / 2 ^ lb"
    proof -
      have "k - 1 = int (la - 1) - int lb" using la by (simp add: k_def)
      then show ?thesis by (simp add: power_int_diff)
    qed
    also have "\<dots> \<le> of_int a / 2 ^ lb"
      using ra(2) by (simp add: divide_right_mono)
    also have "\<dots> < of_int a / of_int b"
      using rb(1) pb a by (simp add: divide_strict_left_mono)
    finally show ?thesis using x by simp
  qed
  have upper: "x < (2::rat) powi (k + 1)"
  proof -
    have "x = of_int a / of_int b" by (rule x)
    also have "\<dots> < 2 ^ la / of_int b"
      using ra(1) pb by (simp add: divide_strict_right_mono)
    also have "\<dots> \<le> 2 ^ la / 2 ^ (lb - 1)"
      by (rule frac_le [OF _ order_refl _ rb(2)]) simp_all
    also have "\<dots> = (2::rat) powi (k + 1)"
    proof -
      have "k + 1 = int la - int (lb - 1)" using lb by (simp add: k_def)
      then show ?thesis by (simp add: power_int_diff)
    qed
    finally show ?thesis .
  qed
  have e: "binary_exponent x = (if (2::rat) powi k \<le> x then k else k - 1)"
    by (simp add: binary_exponent_def q k_def la_def lb_def pow2_powi)
  show ?thesis
  proof (cases "(2::rat) powi k \<le> x")
    case True
    with e upper show ?thesis by (simp add: pow2_powi)
  next
    case False
    with e lower show ?thesis by (simp add: pow2_powi)
  qed
qed


lemma pow2_pos: "0 < pow2 e"
  by (simp add: pow2_powi)

lemma pow2_le_less_exponent:
  assumes "pow2 a \<le> x" and "x < pow2 (b + 1)"
  shows "a \<le> b"
proof (rule ccontr)
  assume "\<not> a \<le> b"
  then have "b + 1 \<le> a" by simp
  then have "(2::rat) powi (b + 1) \<le> 2 powi a" by (intro power_int_increasing) simp_all
  with assms show False by (simp add: pow2_powi)
qed

lemma round_f64_pos_unfold:
  assumes "0 < x"
  shows "round_f64 x =
     of_int (round_half_even (x / pow2 (binary_exponent x - 52))) * pow2 (binary_exponent x - 52)"
  using assms by (simp add: round_f64_def Let_def)

lemma scaled_bounds:
  assumes "0 < x"
  shows "2 ^ 52 \<le> x / pow2 (binary_exponent x - 52)"
    and "x / pow2 (binary_exponent x - 52) < 2 ^ 53"
proof -
  let ?e = "binary_exponent x"
  from binary_exponent_bounds [OF assms]
  have b: "pow2 ?e \<le> x" "x < pow2 (?e + 1)" by simp_all
  have q: "pow2 ?e = 2 ^ 52 * pow2 (?e - 52)" "pow2 (?e + 1) = 2 ^ 53 * pow2 (?e - 52)"
    by (simp_all add: pow2_powi power_int_diff power_int_add)
  show "2 ^ 52 \<le> x / pow2 (?e - 52)"
    using b(1) q(1) pow2_pos [of "?e - 52"] by (simp add: pos_le_divide_eq)
  show "x / pow2 (?e - 52) < 2 ^ 53"
    using b(2) q(2) pow2_pos [of "?e - 52"] by (simp add: pos_divide_less_eq)
qed

lemma round_f64_binade:
  assumes "0 < x"
  shows "pow2 (binary_exponent x) \<le> round_f64 x"
    and "round_f64 x \<le> pow2 (binary_exponent x + 1)"
proof -
  let ?e = "binary_exponent x"
  let ?q = "pow2 (?e - 52)"
  let ?m = "round_half_even (x / ?q)"
  from round_half_even_mono [OF scaled_bounds(1) [OF assms]]
  have lo: "2 ^ 52 \<le> ?m" using round_half_even_of_int [of "2 ^ 52"] by simp
  from round_half_even_mono [OF less_imp_le [OF scaled_bounds(2) [OF assms]]]
  have hi: "?m \<le> 2 ^ 53" using round_half_even_of_int [of "2 ^ 53"] by simp
  have q: "pow2 ?e = 2 ^ 52 * ?q" "pow2 (?e + 1) = 2 ^ 53 * ?q"
    by (simp_all add: pow2_powi power_int_diff power_int_add)
  have rlo: "(2::rat) ^ 52 \<le> of_int ?m"
    using lo by (metis of_int_le_iff of_int_numeral of_int_power)
  have rhi: "(of_int ?m :: rat) \<le> 2 ^ 53"
    using hi by (metis of_int_le_iff of_int_numeral of_int_power)
  show "pow2 ?e \<le> round_f64 x"
    unfolding round_f64_pos_unfold [OF assms] q(1)
    using rlo pow2_pos [of "?e - 52"] by (intro mult_right_mono) simp_all
  show "round_f64 x \<le> pow2 (?e + 1)"
    unfolding round_f64_pos_unfold [OF assms] q(2)
    using rhi pow2_pos [of "?e - 52"] by (intro mult_right_mono) simp_all
qed

lemma round_f64_mono_pos:
  assumes "0 < x" and "x \<le> y"
  shows "round_f64 x \<le> round_f64 y"
proof -
  have y: "0 < y" using assms by simp
  let ?ex = "binary_exponent x" and ?ey = "binary_exponent y"
  from binary_exponent_bounds [OF assms(1)] binary_exponent_bounds [OF y] assms(2)
  have "pow2 ?ex \<le> y" "y < pow2 (?ey + 1)" by simp_all
  from pow2_le_less_exponent [OF this] have le: "?ex \<le> ?ey" .
  show ?thesis
  proof (cases "?ex = ?ey")
    case True
    have "x / pow2 (?ex - 52) \<le> y / pow2 (?ex - 52)"
      using assms(2) pow2_pos [of "?ex - 52"] by (simp add: divide_right_mono)
    from round_half_even_mono [OF this]
    have "(of_int (round_half_even (x / pow2 (?ex - 52))) :: rat) \<le>
          of_int (round_half_even (y / pow2 (?ex - 52)))" by simp
    then show ?thesis
      unfolding round_f64_pos_unfold [OF assms(1)] round_f64_pos_unfold [OF y] True [symmetric]
      using pow2_pos [of "?ex - 52"] by (intro mult_right_mono) simp_all
  next
    case False
    with le have "?ex + 1 \<le> ?ey" by simp
    then have "(2::rat) powi (?ex + 1) \<le> 2 powi ?ey"
      by (intro power_int_increasing) simp_all
    with round_f64_binade(2) [OF assms(1)] round_f64_binade(1) [OF y]
    show ?thesis by (simp add: pow2_powi)
  qed
qed

lemma round_f64_zero: "round_f64 0 = 0"
  by (simp add: round_f64_def)

lemma round_f64_nonneg: "0 \<le> x \<Longrightarrow> 0 \<le> round_f64 x"
proof (cases "x = 0")
  case True
  then show ?thesis by (simp add: round_f64_zero)
next
  case False
  assume "0 \<le> x"
  with False have "0 < x" by simp
  from round_f64_binade(1) [OF this] pow2_pos [of "binary_exponent x"]
  show ?thesis by simp
qed

lemma round_f64_mono:
  assumes "0 \<le> x" and "x \<le> y"
  shows "round_f64 x \<le> round_f64 y"
proof (cases "x = 0")
  case True
  with assms round_f64_nonneg [of y] show ?thesis by (simp add: round_f64_zero)
next
  case False
  with assms have "0 < x" by simp
  from round_f64_mono_pos [OF this assms(2)] show ?thesis .
qed

lemma round_f64_of_int:
  assumes "0 \<le> n" and "n < 2 ^ 53"
  shows "round_f64 (of_int n) = of_int n"
proof (cases "n = 0")
  case True
  then show ?thesis by (simp add: round_f64_zero)
next
  case False
  with assms have pos: "(0::rat) < of_int n" by simp
  let ?e = "binary_exponent (of_int n)"
  from binary_exponent_bounds [OF pos] have b: "pow2 ?e \<le> of_int n" by simp
  have "(of_int n :: rat) < 2 ^ 53"
    using assms(2) by (metis of_int_less_iff of_int_numeral of_int_power)
  then have "(of_int n :: rat) < pow2 (52 + 1)" by (simp add: pow2_powi)
  from pow2_le_less_exponent [OF b this] have e: "?e \<le> 52" .
  define j where "j = nat (52 - ?e)"
  have q: "pow2 (?e - 52) = 1 / 2 ^ j"
    using e by (simp add: pow2_def j_def) 
  have "of_int n / pow2 (?e - 52) = (of_int (n * 2 ^ j) :: rat)"
    by (simp add: q)
  then have "round_half_even (of_int n / pow2 (?e - 52)) = n * 2 ^ j"
    using round_half_even_of_int [of "n * 2 ^ j"] by simp
  then show ?thesis
    unfolding round_f64_pos_unfold [OF pos] by (simp add: q)
qed


lemma round_f64_dyadic:
  assumes "0 \<le> m" and "m < 2 ^ 53"
  shows "round_f64 (of_int m / 2 ^ j) = of_int m / 2 ^ j"
proof (cases "m = 0")
  case True
  then show ?thesis by (simp add: round_f64_zero)
next
  case False
  let ?x = "of_int m / 2 ^ j :: rat"
  from False assms have pos: "0 < ?x" by simp
  let ?e = "binary_exponent ?x"
  from binary_exponent_bounds [OF pos] have b: "pow2 ?e \<le> ?x" by simp
  have "(of_int m :: rat) < 2 ^ 53"
    using assms(2) by (metis of_int_less_iff of_int_numeral of_int_power)
  then have "?x < 2 ^ 53 / 2 ^ j" by (simp add: divide_strict_right_mono)
  also have "\<dots> = pow2 (52 - int j + 1)"
    by (simp add: pow2_powi power_int_diff)
  finally have "?x < pow2 (52 - int j + 1)" .
  from pow2_le_less_exponent [OF b this] have e: "?e \<le> 52 - int j" .
  define i where "i = nat (52 - int j - ?e)"
  have "?e - 52 = - int (i + j)" using e by (simp add: i_def)
  then have "pow2 (?e - 52) = 2 powi (- int (i + j))" by (simp only: pow2_powi)
  also have "\<dots> = 1 / 2 ^ (i + j)"
    by (simp only: power_int_minus_divide power_int_of_nat)
  finally have q: "pow2 (?e - 52) = 1 / 2 ^ (i + j)" .
  have "?x / pow2 (?e - 52) = (of_int (m * 2 ^ i) :: rat)"
    by (simp add: q power_add)
  then have "round_half_even (?x / pow2 (?e - 52)) = m * 2 ^ i"
    using round_half_even_of_int [of "m * 2 ^ i"] by simp
  then show ?thesis
    unfolding round_f64_pos_unfold [OF pos] by (simp add: q power_add)
qed

lemma sdiv_nonneg:
  "0 \<le> (d::int) \<Longrightarrow> 0 < u \<Longrightarrow> d sdiv u = d div u \<and> d smod u = d mod u"
  by (auto simp: signed_divide_int_def signed_modulo_int_def sgn_if)

lemma reading_bounds:
  assumes s: "0 \<le> s" "s < 2048" and n: "0 \<le> n" "n < U" and u: "U < 2 ^ 53"
    and c: "round_f64 (of_int (U - 1) / of_int U) \<le> 1 - 1 / 2 ^ 42"
  shows "of_int s \<le> f64_add (f64_of_int s) (f64_div (f64_of_int n) (of_int U))"
    and "f64_add (f64_of_int s) (f64_div (f64_of_int n) (of_int U)) \<le> of_int s + 1 - 1 / 2 ^ 42"
proof -
  have U: "0 < U" using n by simp
  have fs: "f64_of_int s = of_int s"
    using s by (simp add: f64_of_int_def round_f64_of_int)
  have fn: "f64_of_int n = of_int n"
    using n u by (simp add: f64_of_int_def round_f64_of_int)
  define q where "q = round_f64 (of_int n / of_int U)"
  have q0: "0 \<le> q" using n U by (simp add: q_def round_f64_nonneg)
  have "(of_int n :: rat) / of_int U \<le> of_int (U - 1) / of_int U"
    using n U by (simp add: divide_right_mono)
  from round_f64_mono [OF _ this] n U c have q1: "q \<le> 1 - 1 / 2 ^ 42"
    by (simp add: q_def)
  define r where "r = round_f64 (of_int s + q)"
  have r: "f64_add (f64_of_int s) (f64_div (f64_of_int n) (of_int U)) = r"
    by (simp add: f64_add_def f64_div_def fs fn q_def r_def)
  have lo: "of_int s \<le> r"
  proof -
    have "round_f64 (of_int s) \<le> round_f64 (of_int s + q)"
      using s q0 by (intro round_f64_mono) simp_all
    then show ?thesis using s by (simp add: r_def round_f64_of_int)
  qed
  have hi: "r \<le> of_int s + 1 - 1 / 2 ^ 42"
  proof -
    have "r \<le> round_f64 (of_int s + (1 - 1 / 2 ^ 42))"
      unfolding r_def using s q0 q1 by (intro round_f64_mono) simp_all
    also have "of_int s + (1 - 1 / 2 ^ 42) = (of_int ((s + 1) * 2 ^ 42 - 1) / 2 ^ 42 :: rat)"
      by (simp add: field_simps)
    also have "round_f64 (of_int ((s + 1) * 2 ^ 42 - 1) / 2 ^ 42) =
        of_int ((s + 1) * 2 ^ 42 - 1) / 2 ^ 42"
      using s by (intro round_f64_dyadic) simp_all
    also have "\<dots> = of_int s + 1 - 1 / 2 ^ 42" by (simp add: field_simps)
    finally show ?thesis .
  qed
  from lo hi r
  show "of_int s \<le> f64_add (f64_of_int s) (f64_div (f64_of_int n) (of_int U))"
    and "f64_add (f64_of_int s) (f64_div (f64_of_int n) (of_int U)) \<le> of_int s + 1 - 1 / 2 ^ 42"
    by simp_all
qed

lemma whole_part_exact:
  assumes s: "0 \<le> s" "s < 2048" and n: "0 \<le> n" "n < U" and u: "U < 2 ^ 53"
    and c: "round_f64 (of_int (U - 1) / of_int U) \<le> 1 - 1 / 2 ^ 42"
  shows "int_of_f64 (f64_add (f64_of_int s) (f64_div (f64_of_int n) (of_int U))) = s"
proof -
  define r where "r = f64_add (f64_of_int s) (f64_div (f64_of_int n) (of_int U))"
  from reading_bounds [OF assms] have lo: "of_int s \<le> r" and hi: "r \<le> of_int s + 1 - 1 / 2 ^ 42"
    by (simp_all add: r_def)
  have "r < of_int s + 1" using hi by simp
  with lo have "\<lfloor>r\<rfloor> = s" by (intro floor_unique) simp_all
  moreover have "0 \<le> r" using lo s by simp
  ultimately show ?thesis by (simp add: int_of_f64_def r_def)
qed

lemma unit_fractions:
  "round_f64 (of_int (Second - 1) / of_int Second) \<le> 1 - 1 / 2 ^ 42"
  "round_f64 (of_int (Minute - 1) / of_int Minute) \<le> 1 - 1 / 2 ^ 42"
  "round_f64 (of_int (Hour - 1) / of_int Hour) \<le> 1 - 1 / 2 ^ 42"
  by code_simp+


lemma div_bound:
  assumes "0 \<le> (d::int)" and "d < k * u" and "0 < u"
  shows "0 \<le> d div u" and "d div u < k"
proof -
  show "0 \<le> d div u" using assms(1,3) by (simp add: pos_imp_zdiv_nonneg_iff)
  show "d div u < k"
  proof (rule ccontr)
    assume "\<not> d div u < k"
    then have a: "k * u \<le> (d div u) * u" using assms(3) by (intro mult_right_mono) simp_all
    have m: "0 \<le> d mod u" using assms(3) by simp
    have e: "(d div u) * u + d mod u = d" by simp
    from a m e assms(2) show False by linarith
  qed
qed

lemma Seconds_whole:
  assumes "0 \<le> d" and "d < Minute"
  shows "int_of_f64 (Seconds d) = d div Second"
proof -
  have u: "0 < Second" "Second < 2 ^ 53" "of_int Second = (1000000000 :: rat)"
    by (simp_all add: Second_def)
  have "d < 2048 * Second" using assms(2) by (simp add: Minute_def Second_def)
  from div_bound [OF assms(1) this u(1)]
  have w: "0 \<le> d div Second" "d div Second < 2048" .
  have n: "0 \<le> d mod Second" "d mod Second < Second"
    using u(1) by simp_all
  from whole_part_exact [OF w n u(2) unit_fractions(1)] sdiv_nonneg [OF assms(1) u(1)] u(3)
  show ?thesis by (simp add: Seconds_def Let_def)
qed

lemma Minutes_whole:
  assumes "0 \<le> d" and "d < Hour"
  shows "int_of_f64 (Minutes d) = d div Minute"
proof -
  have u: "0 < Minute" "Minute < 2 ^ 53" "of_int Minute = (60 * 1000000000 :: rat)"
    by (simp_all add: Minute_def Second_def)
  have "d < 2048 * Minute" using assms(2) by (simp add: Hour_def Minute_def Second_def)
  from div_bound [OF assms(1) this u(1)]
  have w: "0 \<le> d div Minute" "d div Minute < 2048" .
  have n: "0 \<le> d mod Minute" "d mod Minute < Minute"
    using u(1) by simp_all
  from whole_part_exact [OF w n u(2) unit_fractions(2)] sdiv_nonneg [OF assms(1) u(1)] u(3)
  show ?thesis by (simp add: Minutes_def Let_def)
qed

lemma Hours_whole:
  assumes "0 \<le> d" and "d < 2048 * Hour"
  shows "int_of_f64 (Hours d) = d div Hour"
proof -
  have u: "0 < Hour" "Hour < 2 ^ 53" "of_int Hour = (60 * 60 * 1000000000 :: rat)"
    by (simp_all add: Hour_def Minute_def Second_def)
  from div_bound [OF assms(1,2) u(1)]
  have w: "0 \<le> d div Hour" "d div Hour < 2048" .
  have n: "0 \<le> d mod Hour" "d mod Hour < Hour"
    using u(1) by simp_all
  from whole_part_exact [OF w n u(2) unit_fractions(3)] sdiv_nonneg [OF assms(1) u(1)] u(3)
  show ?thesis by (simp add: Hours_def Let_def)
qed

lemma days_whole:
  assumes "0 \<le> d" and "d < 64 * (24 * Hour)"
  shows "int_of_f64 (f64_div (Hours d) 24) = d div (24 * Hour)"
proof -
  have u: "0 < Hour" "Hour < 2 ^ 53" "of_int Hour = (60 * 60 * 1000000000 :: rat)"
    by (simp_all add: Hour_def Minute_def Second_def)
  define h where "h = d div Hour"
  define k where "k = h div 24"
  have "d < 1536 * Hour" using assms(2) by simp
  from div_bound [OF assms(1) this u(1)] have h: "0 \<le> h" "h < 1536" by (simp_all add: h_def)
  from div_bound [OF h(1), of 64 24] h(2) have k: "0 \<le> k" "k < 64" by (simp_all add: k_def)
  have n: "0 \<le> d mod Hour" "d mod Hour < Hour" using u(1) by simp_all
  have h': "h < 2048" using h(2) by simp
  from reading_bounds [OF h(1) h' n u(2) unit_fractions(3)] sdiv_nonneg [OF assms(1) u(1)] u(3)
  have lo: "of_int h \<le> Hours d" and hi: "Hours d \<le> of_int h + 1 - 1 / 2 ^ 42"
    by (simp_all add: Hours_def Let_def h_def)
  have hk: "24 * k \<le> h" "h \<le> 24 * k + 23"
    unfolding k_def by presburger+
  have rk: "(24 * of_int k :: rat) \<le> of_int h" "(of_int h :: rat) \<le> 24 * of_int k + 23"
    using hk by (metis of_int_le_iff of_int_mult of_int_numeral,
        metis of_int_le_iff of_int_mult of_int_numeral of_int_add)
  define D where "D = round_f64 (Hours d / 24)"
  have H0: "0 \<le> Hours d" using lo h(1) by simp
  have Dlo: "of_int k \<le> D"
  proof -
    have "of_int k \<le> Hours d / 24" using lo rk(1) by simp
    then have "round_f64 (of_int k) \<le> round_f64 (Hours d / 24)"
      using k(1) by (intro round_f64_mono) simp_all
    then show ?thesis using k by (simp add: D_def round_f64_of_int)
  qed
  have Dhi: "D < of_int k + 1"
  proof -
    have "Hours d / 24 \<le> (24 * of_int k + 24 - 1 / 2 ^ 42) / 24"
      using hi rk(2) by (intro divide_right_mono) simp_all
    also have "\<dots> \<le> of_int k + 1 - 1 / 2 ^ 47" by (simp add: field_simps)
    finally have "Hours d / 24 \<le> of_int k + 1 - 1 / 2 ^ 47" .
    then have "D \<le> round_f64 (of_int k + 1 - 1 / 2 ^ 47)"
      unfolding D_def using H0 by (intro round_f64_mono) simp_all
    also have "of_int k + 1 - 1 / 2 ^ 47 = (of_int ((k + 1) * 2 ^ 47 - 1) / 2 ^ 47 :: rat)"
      by (simp add: field_simps)
    also have "round_f64 (of_int ((k + 1) * 2 ^ 47 - 1) / 2 ^ 47) =
        of_int ((k + 1) * 2 ^ 47 - 1) / 2 ^ 47"
      using k by (intro round_f64_dyadic) simp_all
    also have "\<dots> < of_int k + 1" by (simp add: field_simps)
    finally show ?thesis .
  qed
  have "\<lfloor>D\<rfloor> = k" using Dlo Dhi by (intro floor_unique) simp_all
  moreover have "0 \<le> D" using Dlo k(1) by simp
  moreover have "d div (24 * Hour) = k"
    using zdiv_zmult2_eq [of 24 d Hour] by (simp add: k_def h_def mult.commute)
  ultimately show ?thesis by (simp add: int_of_f64_def f64_div_def D_def)
qed

lemma age_label_under_64_days:
  assumes "0 \<le> d" and "d < 64 * (24 * Hour)"
  shows "age_label d =
     (if d < Minute then dec_int (d div Second) @ ''s ago''
      else if d < Hour then dec_int (d div Minute) @ ''m ago''
      else if d < 24 * Hour then dec_int (d div Hour) @ ''h ago''
      else dec_int (d div (24 * Hour)) @ ''d ago'')"
proof -
  have "d < 2048 * Hour" using assms(2) by (simp add: Hour_def Minute_def Second_def)
  with assms Seconds_whole [of d] Minutes_whole [of d] Hours_whole [of d] days_whole [of d]
  show ?thesis by (simp add: age_label_def)
qed

lemma formatAge_label:
  "snd (formatAge w t) = age_label (time_Sub (clock w (ticks w)) t)"
  by (simp add: formatAge_def time_Since_def time_Now_def)

lemma formatAge_under_64_days:
  assumes "t \<le> clock w (ticks w)" and "clock w (ticks w) - t < 64 * (24 * Hour)"
  shows "snd (formatAge w t) =
     (let d = clock w (ticks w) - t
      in if d < Minute then dec_int (d div Second) @ ''s ago''
         else if d < Hour then dec_int (d div Minute) @ ''m ago''
         else if d < 24 * Hour then dec_int (d div Hour) @ ''h ago''
         else dec_int (d div (24 * Hour)) @ ''d ago'')"
proof -
  let ?d = "clock w (ticks w) - t"
  have d: "0 \<le> ?d" using assms(1) by simp
  have "?d \<le> maxDuration"
    using assms(2) by (simp add: maxDuration_def Hour_def Minute_def Second_def)
  moreover have "minDuration \<le> ?d" using d by (simp add: minDuration_def)
  ultimately have "time_Sub (clock w (ticks w)) t = ?d"
    by (simp add: time_Sub_def Let_def)
  with age_label_under_64_days [OF d assms(2)] show ?thesis
    by (simp add: formatAge_label Let_def)
qed


subsection \<open>Age labels of the spec's examples\<close>

lemma age_label_examples:
  "age_label (45 * Second) = ''45s ago''"
  "age_label (90 * Minute) = ''1h ago''"
  "age_label (3 * 24 * Hour) = ''3d ago''"
  by code_simp+

section \<open>The claims\<close>




text \<open>
  C2, at an input where the code departs from it. The state file holds a Running
  record of process 4242, and process 4242 exists: Start must fail with
  \<open>ErrAlreadyRunning\<close>. \<open>processExists\<close> passes \<^verbatim>\<open>nil\<close> to \<^verbatim>\<open>Process.Signal\<close>, which
  refuses it for every process, so the liveness check never passes
  (\<open>processExists_never\<close>) and Start never fails with \<open>ErrAlreadyRunning\<close>
  (\<open>Start_never_AlreadyRunning\<close>): it returns no error and overwrites the record with a
  new start time and its own identifier. The rest of the claim holds: a Start that
  succeeds has saved the record as Running with the start time read from the clock and
  a process identifier (\<open>Start_success\<close>), and Start after Stop succeeds and stamps the
  start time again (\<open>Start_after_Stop\<close>).
\<close>

theorem Start_overwrites_live_record:
  "loadState mgr0 live_world = Inr running_record \<and> State running_record = StateRunning \<and>
   0 <s PID running_record \<and> alive live_world (PID running_record) \<and>
   PID running_record \<noteq> self_pid live_world \<and>
   snd (Manager_Start mgr0 False live_world) = Returned None \<and>
   loadState mgr0 (fst (Manager_Start mgr0 False live_world)) =
     Inr (running_record\<lparr>StartedAt := Some 1700000000000000000, PID := 100\<rparr>)"
proof -
  let ?r' = "running_record\<lparr>State := StateRunning, StartedAt := Some 1700000000000000000,
      PID := 100\<rparr>"
  have s: "storable_Refinery ?r'" by code_simp
  have e: "?r' = running_record\<lparr>StartedAt := Some 1700000000000000000, PID := 100\<rparr>"
    by (simp add: running_record_def)
  have a: "alive live_world (PID running_record)" "PID running_record \<noteq> self_pid live_world"
    by (simp_all add: live_world_def world0_def running_record_def)
  from Start_proceeds [OF load_live_world, of False] obtain w1 where
    w1: "mkdir_ok w1" "write_ok w1" and
    c: "case snd (saveState mgr0 w1 ?r') of
            Some e \<Rightarrow> Manager_Start mgr0 False live_world =
              (fst (saveState mgr0 w1 ?r'), Returned (Some e))
          | None \<Rightarrow>
              disk (fst (Manager_Start mgr0 False live_world)) =
                disk (fst (saveState mgr0 w1 ?r')) \<and>
              snd (Manager_Start mgr0 False live_world) =
                (if False then Blocked else Returned None)"
    by (auto simp: Let_def live_world_def world0_def)
  from save_storable [OF s w1, of mgr0] c
  have d: "disk (fst (Manager_Start mgr0 False live_world)) = disk (fst (saveState mgr0 w1 ?r'))"
    and o: "snd (Manager_Start mgr0 False live_world) = Returned None"
    and l: "loadState mgr0 (fst (saveState mgr0 w1 ?r')) = Inr ?r'"
    by simp_all
  from loadState_disk [OF d] l e
  have "loadState mgr0 (fst (Manager_Start mgr0 False live_world)) =
     Inr (running_record\<lparr>StartedAt := Some 1700000000000000000, PID := 100\<rparr>)" by simp
  with o a load_live_world running_record_facts(1,2) show ?thesis by simp
qed




text \<open>
  C4. For every loaded record and every sequence of discovered branch names, the queue
  holds the current merge request of the record first, at position 0, when there is
  one, then one item for each accepted discovered branch, in discovery order, at the
  positions 1 to N. Every accepted branch has its item: a branch that names the source
  branch of the current request is listed again.
\<close>

theorem Queue_current_then_discovered:
  assumes "loadState m w = Inr r" and "discoverWorkBranches m w = Inr branches"
  shows "\<exists>items. snd (Manager_Queue m w) = Inr items \<and>
     map Position items =
       (case CurrentMR r of None \<Rightarrow> [] | Some cur \<Rightarrow> [0]) @
       map int [1..<Suc (length (filter accepted branches))] \<and>
     (case CurrentMR r of None \<Rightarrow> True | Some cur \<Rightarrow> map MR (take 1 items) = [cur]) \<and>
     map (\<lambda>i. Branch (MR i)) items =
       (case CurrentMR r of None \<Rightarrow> [] | Some cur \<Rightarrow> [Branch cur]) @
       filter accepted branches"
proof -
  from Queue_items [OF assms] obtain new where
    q: "snd (Manager_Queue m w) =
        Inr ((case CurrentMR r of None \<Rightarrow> []
              | Some cur \<Rightarrow> [\<lparr>Position = 0, MR = cur,
                   Age = snd (formatAge w (CreatedAt cur))\<rparr>]) @ new)"
    and p: "map Position new = map (\<lambda>k. 1 + int k) [0..<length (filter accepted branches)]"
    and b: "map (\<lambda>i. Branch (MR i)) new = filter accepted branches" by blast
  have idx: "map (\<lambda>k. 1 + int k) [0..<length (filter accepted branches)] =
      map int [1..<Suc (length (filter accepted branches))]"
    by (simp add: map_Suc_upt [symmetric] del: upt_Suc)
  show ?thesis
    using q p b idx by (cases "CurrentMR r") auto
qed

theorem Queue_current_then_discovered_witness:
  "loadState mgr0 queue_world = Inr full_record \<and>
   CurrentMR full_record = Some sample_mr \<and> Branch sample_mr = ''polecat/w1/iss1'' \<and>
   discoverWorkBranches mgr0 queue_world = Inr [''polecat/w1/iss1'', ''polecat/w2''] \<and>
   map_sum id (map Position) (snd (Manager_Queue mgr0 queue_world)) = Inr [0, 1, 2] \<and>
   map_sum id (\<lambda>items. map MR (take 1 items)) (snd (Manager_Queue mgr0 queue_world)) =
     Inr [sample_mr] \<and>
   map_sum id (map (\<lambda>i. Branch (MR i))) (snd (Manager_Queue mgr0 queue_world)) =
     Inr [''polecat/w1/iss1'', ''polecat/w1/iss1'', ''polecat/w2'']"
proof -
  have b: "Branch sample_mr = ''polecat/w1/iss1''" by (simp add: sample_mr_def)
  have u: "map int [1..<Suc 2] = [1, 2]" by code_simp
  from Queue_current_then_discovered [OF queue_world_facts]
  obtain items where "snd (Manager_Queue mgr0 queue_world) = Inr items"
    "map Position items = [0, 1, 2]" "map MR (take 1 items) = [sample_mr]"
    "map (\<lambda>i. Branch (MR i)) items = [''polecat/w1/iss1'', ''polecat/w1/iss1'', ''polecat/w2'']"
    using full_record_facts(2) accepted_sample b u by auto
  with queue_world_facts full_record_facts(2) b show ?thesis by simp
qed

text \<open>
  C5. A branch name holds no line feed: git allows none, and the names
  \<open>discoverWorkBranches\<close> returns are pieces of lines (\<open>discovered_no_line_feed\<close>).
  Such a name is accepted by \<open>branchToMR\<close> if and only if it has the form
  \<open>polecat/<worker>\<close> or \<open>polecat/<worker>/<issue>\<close> with a non-empty worker segment.
  An accepted branch yields a merge request for that branch with that worker, the issue
  (empty when absent), status pending and target branch \<open>main\<close>. The malformed name
  \<open>not-a-worker-branch\<close> yields no request, and no error: the result has no place for
  one.
\<close>

theorem branchToMR_accepts_polecat_form:
  assumes "CHR 0x0A \<notin> set branch"
  shows "(snd (branchToMR w branch) \<noteq> None \<longleftrightarrow>
            (\<exists>worker issue. polecat_form branch worker issue))
       \<and> (\<forall>worker issue. polecat_form branch worker issue \<longrightarrow>
            (\<exists>mr. snd (branchToMR w branch) = Some mr \<and> Branch mr = branch \<and>
                  Worker mr = worker \<and> IssueID mr = issue \<and>
                  Status mr = MRPending \<and> TargetBranch mr = ''main''))
       \<and> snd (branchToMR w ''not-a-worker-branch'') = None"
proof -
  have nl: "\<And>worker issue. polecat_form branch worker issue \<Longrightarrow> CHR 0x0A \<notin> set issue"
    using assms by (auto simp: polecat_form_def)
  have acc: "\<And>worker issue. polecat_form branch worker issue \<Longrightarrow>
      FindStringSubmatch branch = Some [branch, worker, issue]"
    using nl by (auto simp: FindStringSubmatch_iff)
  have rej: "FindStringSubmatch branch = None \<longleftrightarrow> \<not> (\<exists>worker issue. polecat_form branch worker issue)"
  proof
    assume "FindStringSubmatch branch = None"
    then show "\<not> (\<exists>worker issue. polecat_form branch worker issue)"
      using acc by auto
  next
    assume n: "\<not> (\<exists>worker issue. polecat_form branch worker issue)"
    show "FindStringSubmatch branch = None"
    proof (cases "FindStringSubmatch branch")
      case None then show ?thesis .
    next
      case (Some ms)
      then show ?thesis using n by (auto simp: FindStringSubmatch_iff)
    qed
  qed
  have one: "snd (branchToMR w branch) \<noteq> None \<longleftrightarrow>
            (\<exists>worker issue. polecat_form branch worker issue)"
    using rej by (auto simp: branchToMR_def time_Now_def Let_def split: option.splits)
  have two: "\<forall>worker issue. polecat_form branch worker issue \<longrightarrow>
            (\<exists>mr. snd (branchToMR w branch) = Some mr \<and> Branch mr = branch \<and>
                  Worker mr = worker \<and> IssueID mr = issue \<and>
                  Status mr = MRPending \<and> TargetBranch mr = ''main'')"
    using acc by (auto simp: branchToMR_def time_Now_def Let_def)
  have "re_polecat ''not-a-worker-branch'' = []"
    by (simp add: re_polecat_def re_lit_def)
  then have three: "snd (branchToMR w ''not-a-worker-branch'') = None"
    by (simp add: branchToMR_def FindStringSubmatch_def)
  from one two three show ?thesis by blast
qed

theorem branchToMR_accepts_polecat_form_witness:
  "CHR 0x0A \<notin> set ''polecat/w1/iss1'' \<and> polecat_form ''polecat/w1/iss1'' ''w1'' ''iss1'' \<and>
   snd (branchToMR world0 ''polecat/w1/iss1'') \<noteq> None \<and>
   Branch (the (snd (branchToMR world0 ''polecat/w1/iss1''))) = ''polecat/w1/iss1'' \<and>
   Worker (the (snd (branchToMR world0 ''polecat/w1/iss1''))) = ''w1'' \<and>
   IssueID (the (snd (branchToMR world0 ''polecat/w1/iss1''))) = ''iss1'' \<and>
   Status (the (snd (branchToMR world0 ''polecat/w1/iss1''))) = MRPending \<and>
   TargetBranch (the (snd (branchToMR world0 ''polecat/w1/iss1''))) = ''main''"
proof -
  have h: "CHR 0x0A \<notin> set ''polecat/w1/iss1''" by simp
  have pf: "polecat_form ''polecat/w1/iss1'' ''w1'' ''iss1''"
    by (simp add: polecat_form_def)
  from branchToMR_accepts_polecat_form [OF h, of world0] pf
  obtain mr where "snd (branchToMR world0 ''polecat/w1/iss1'') = Some mr"
    "Branch mr = ''polecat/w1/iss1''" "Worker mr = ''w1''" "IssueID mr = ''iss1''"
    "Status mr = MRPending" "TargetBranch mr = ''main''"
    by blast
  with h pf show ?thesis by simp
qed

text \<open>
  C6, as the code has it. Branch discovery returns the empty sequence and no error when
  git lists nothing (no remote), and equally when the git command fails, for whatever
  reason: it never returns an error. The only error of the queue query is that of
  loading the state.
\<close>

theorem discovery_swallows_failures:
  "(\<exists>branches. discoverWorkBranches m w = Inr branches) \<and>
   (git_branch w = CmdOk [] \<longrightarrow> discoverWorkBranches m w = Inr []) \<and>
   (\<forall>failure. git_branch w = CmdFailed failure \<longrightarrow> discoverWorkBranches m w = Inr []) \<and>
   (\<forall>e. snd (Manager_Queue m w) = Inl e \<longrightarrow> loadState m w = Inl e)"
proof -
  have e: "collect_branches (strings_Split_lf []) [] = []" by code_simp
  have 1: "git_branch w = CmdOk [] \<longrightarrow> discoverWorkBranches m w = Inr []"
    using e by (simp add: discoverWorkBranches_def)
  have 2: "\<forall>failure. git_branch w = CmdFailed failure \<longrightarrow> discoverWorkBranches m w = Inr []"
    by (simp add: discoverWorkBranches_def)
  from discover_total [of m w] 1 2 Queue_error [of m w] show ?thesis by blast
qed

theorem discovery_swallows_failures_witness:
  "git_branch denied_world = CmdFailed PermissionDenied \<and>
   discoverWorkBranches mgr0 denied_world = Inr [] \<and>
   git_branch world0 = CmdOk [] \<and> discoverWorkBranches mgr0 world0 = Inr []"
proof -
  have g: "git_branch denied_world = CmdFailed PermissionDenied" "git_branch world0 = CmdOk []"
    by (simp_all add: denied_world_def world0_def)
  from discovery_swallows_failures [of mgr0 denied_world]
    discovery_swallows_failures [of mgr0 world0] g
  show ?thesis by simp
qed

text \<open>
  C6 as stated fails where git fails for lack of permission: discovery reports no
  branches and no error, and the queue query returns an empty queue.
\<close>

theorem discovery_permission_failure_counterexample:
  "git_branch denied_world = CmdFailed PermissionDenied \<and>
   discoverWorkBranches mgr0 denied_world = Inr [] \<and>
   snd (Manager_Queue mgr0 denied_world) = Inr []"
  using Queue_denied_world
  by (simp add: discoverWorkBranches_def denied_world_def world0_def)

text \<open>
  C7, as the code has it. Saving a record whose strings are valid UTF-8, when the save
  succeeds, and loading it again reproduces every field of the record: the process
  identifier, the start timestamp, the current merge request, the last-merge timestamp,
  the error detail and the statistics included.
\<close>

theorem save_then_load_reproduces:
  assumes "utf8_Refinery r" and "snd (saveState m w r) = None"
  shows "loadState m (fst (saveState m w r)) = Inr r"
  using load_after_save [OF assms(2)] utf8_coerce_Refinery [OF assms(1)] by simp

theorem save_then_load_reproduces_witness:
  "utf8_Refinery full_record \<and> snd (saveState mgr0 world0 full_record) = None \<and>
   StartedAt full_record \<noteq> None \<and> CurrentMR full_record \<noteq> None \<and>
   LastMergeAt full_record \<noteq> None \<and> PID full_record \<noteq> 0 \<and>
   loadState mgr0 (fst (saveState mgr0 world0 full_record)) = Inr full_record"
proof -
  note u = utf8_full_record and s = save_full_record
  have o: "StartedAt full_record \<noteq> None \<and> CurrentMR full_record \<noteq> None \<and>
     LastMergeAt full_record \<noteq> None \<and> PID full_record \<noteq> 0"
    by (simp add: full_record_def)
  from save_then_load_reproduces [OF u s] u s o show ?thesis by simp
qed

text \<open>
  C7 as stated fails for a record with a string that is not valid UTF-8: the encoder
  writes U+FFFD for each offending byte, the save succeeds, and the load returns another
  rig name than the one saved.
\<close>

theorem save_then_load_invalid_utf8_counterexample:
  "snd (saveState mgr0 world0 latin1_record) = None \<and>
   RigName latin1_record = ''caf'' @ [CHR 0xE9] \<and>
   loadState mgr0 (fst (saveState mgr0 world0 latin1_record)) =
     Inr (latin1_record\<lparr>RigName := ''caf'' @ [CHR 0xEF, CHR 0xBF, CHR 0xBD]\<rparr>) \<and>
   loadState mgr0 (fst (saveState mgr0 world0 latin1_record)) \<noteq> Inr latin1_record"
proof -
  have s: "snd (saveState mgr0 world0 latin1_record) = None" by code_simp
  have c: "coerce_Refinery latin1_record =
      latin1_record\<lparr>RigName := ''caf'' @ [CHR 0xEF, CHR 0xBF, CHR 0xBD]\<rparr>"
    by code_simp
  have n: "RigName latin1_record = ''caf'' @ [CHR 0xE9]"
    by (simp add: latin1_record_def)
  have d: "latin1_record\<lparr>RigName := ''caf'' @ [CHR 0xEF, CHR 0xBF, CHR 0xBD]\<rparr> \<noteq> latin1_record"
    by (simp add: latin1_record_def zero_Refinery_def)
  from load_after_save [OF s] c n d s show ?thesis by simp
qed

text \<open>
  C8, as the code has it. The default record of a first load satisfies the invariant of
  a stopped agent (no current merge request, no process identifier). The record Stop
  writes, and the record the self-healing Status returns and writes, are Stopped with
  the process identifier cleared, and keep the current merge request of the record that
  was loaded. The record Start writes is Running, so the invariant asks nothing of it.
  No operation sets the current merge request, so in a store that only Start, Stop,
  Status and Queue have written since the state file was absent, every record that
  loads, and every record Status returns, satisfies the invariant.
\<close>

theorem lifecycle_records:
  "(disk w = NotExist \<longrightarrow>
      (\<exists>r. loadState m w = Inr r \<and> State r = StateStopped \<and> stopped_invariant r)) \<and>
   (\<forall>r. loadState m w = Inr r \<and> snd (Manager_Stop m w) = None \<longrightarrow>
      (\<exists>r'. loadState m (fst (Manager_Stop m w)) = Inr r' \<and> State r' = StateStopped \<and>
            PID r' = 0 \<and> CurrentMR r' = CurrentMR r)) \<and>
   (\<forall>r. loadState m w = Inr r \<and> State r = StateRunning \<and> 0 <s PID r \<longrightarrow>
      (\<exists>r'. snd (Manager_Status m w) = Inr r' \<and> State r' = StateStopped \<and>
            PID r' = 0 \<and> CurrentMR r' = CurrentMR r \<and>
            (mkdir_ok w \<and> write_ok w \<longrightarrow> loadState m (fst (Manager_Status m w)) = Inr r'))) \<and>
   (snd (Manager_Start m foreground w) = Returned None \<or>
    snd (Manager_Start m foreground w) = Blocked \<longrightarrow>
      (\<exists>r'. loadState m (fst (Manager_Start m foreground w)) = Inr r' \<and>
            State r' = StateRunning \<and> stopped_invariant r')) \<and>
   (reachable m w \<longrightarrow>
      (\<forall>r. loadState m w = Inr r \<longrightarrow> stopped_invariant r) \<and>
      (\<forall>r. snd (Manager_Status m w) = Inr r \<longrightarrow> stopped_invariant r))"
proof -
  have first: "disk w = NotExist \<longrightarrow>
      (\<exists>r. loadState m w = Inr r \<and> State r = StateStopped \<and> stopped_invariant r)"
    by (auto simp: loadState_def stopped_invariant_def zero_Refinery_def)
  have stop: "\<forall>r. loadState m w = Inr r \<and> snd (Manager_Stop m w) = None \<longrightarrow>
      (\<exists>r'. loadState m (fst (Manager_Stop m w)) = Inr r' \<and> State r' = StateStopped \<and>
            PID r' = 0 \<and> CurrentMR r' = CurrentMR r)"
  proof (intro allI impI)
    fix r assume h: "loadState m w = Inr r \<and> snd (Manager_Stop m w) = None"
    let ?r' = "r\<lparr>State := StateStopped, PID := 0\<rparr>"
    have run: "State r = StateRunning"
    proof (rule ccontr)
      assume "State r \<noteq> StateRunning"
      from Stop_not_running [OF _ this, of m w] h show False by simp
    qed
    from Stop_running [OF _ run, of m w] h obtain w1 where
      w1: "Manager_Stop m w = saveState m w1 ?r'" by auto
    with h have s: "snd (saveState m w1 ?r') = None" by simp
    have "State r \<noteq> StateStopped" using run StateRunning_neq by simp
    from storable_Stopped [OF loadState_not_Stopped [OF _ this, of m w]] h
    have "storable_Refinery ?r'" by simp
    from load_after_save [OF s] utf8_coerce_Refinery [OF storable_utf8 [OF this]] w1
    have "loadState m (fst (Manager_Stop m w)) = Inr ?r'" by simp
    then show "\<exists>r'. loadState m (fst (Manager_Stop m w)) = Inr r' \<and> State r' = StateStopped \<and>
            PID r' = 0 \<and> CurrentMR r' = CurrentMR r" by simp
  qed
  have status: "\<forall>r. loadState m w = Inr r \<and> State r = StateRunning \<and> 0 <s PID r \<longrightarrow>
      (\<exists>r'. snd (Manager_Status m w) = Inr r' \<and> State r' = StateStopped \<and>
            PID r' = 0 \<and> CurrentMR r' = CurrentMR r \<and>
            (mkdir_ok w \<and> write_ok w \<longrightarrow> loadState m (fst (Manager_Status m w)) = Inr r'))"
  proof (intro allI impI)
    fix r assume h: "loadState m w = Inr r \<and> State r = StateRunning \<and> 0 <s PID r"
    let ?r' = "r\<lparr>State := StateStopped, PID := 0\<rparr>"
    from h have l: "loadState m w = Inr r" and run: "State r = StateRunning"
      and p: "0 <s PID r" by simp_all
    have st: "Manager_Status m w = (fst (saveState m w ?r'), Inr ?r')"
      by (rule Status_heals [OF l run p])
    have "State r \<noteq> StateStopped" using run StateRunning_neq by simp
    from storable_Stopped [OF loadState_not_Stopped [OF l this]]
    have sr: "storable_Refinery ?r'" .
    have "mkdir_ok w \<and> write_ok w \<longrightarrow> loadState m (fst (Manager_Status m w)) = Inr ?r'"
      using save_storable [OF sr, of w m] st by simp
    with st show "\<exists>r'. snd (Manager_Status m w) = Inr r' \<and> State r' = StateStopped \<and>
            PID r' = 0 \<and> CurrentMR r' = CurrentMR r \<and>
            (mkdir_ok w \<and> write_ok w \<longrightarrow> loadState m (fst (Manager_Status m w)) = Inr r')"
      by simp
  qed
  have start: "snd (Manager_Start m foreground w) = Returned None \<or>
    snd (Manager_Start m foreground w) = Blocked \<longrightarrow>
      (\<exists>r'. loadState m (fst (Manager_Start m foreground w)) = Inr r' \<and>
            State r' = StateRunning \<and> stopped_invariant r')"
  proof
    assume "snd (Manager_Start m foreground w) = Returned None \<or>
      snd (Manager_Start m foreground w) = Blocked"
    from Start_success [OF this] obtain r where
      "loadState m (fst (Manager_Start m foreground w)) =
       Inr (coerce_Refinery (r\<lparr>State := StateRunning, StartedAt := Some (clock w (ticks w)),
                               PID := self_pid w\<rparr>))" by blast
    moreover have "toValidUTF8 StateRunning = StateRunning"
      using valid_utf8_states(2) by (simp add: valid_utf8_def)
    ultimately show "\<exists>r'. loadState m (fst (Manager_Start m foreground w)) = Inr r' \<and>
            State r' = StateRunning \<and> stopped_invariant r'"
      using StateRunning_neq by (simp add: coerce_Refinery_def stopped_invariant_def)
  qed
  have reached: "reachable m w \<longrightarrow>
      (\<forall>r. loadState m w = Inr r \<longrightarrow> stopped_invariant r) \<and>
      (\<forall>r. snd (Manager_Status m w) = Inr r \<longrightarrow> stopped_invariant r)"
    using reachable_settled [of m w] reachable_Status_settled [of m w] settled_invariant
    by blast
  from first stop status start reached show ?thesis by blast
qed

theorem lifecycle_records_witness:
  "disk world0 = NotExist \<and>
   loadState mgr0 world0 = Inr (zero_Refinery\<lparr>RigName := ''gastown'', State := StateStopped\<rparr>) \<and>
   stopped_invariant (zero_Refinery\<lparr>RigName := ''gastown'', State := StateStopped\<rparr>) \<and>
   loadState mgr0 busy_world = Inr full_record \<and>
   snd (Manager_Stop mgr0 busy_world) = None \<and>
   map_sum id State (loadState mgr0 (fst (Manager_Stop mgr0 busy_world))) = Inr StateStopped \<and>
   map_sum id PID (loadState mgr0 (fst (Manager_Stop mgr0 busy_world))) = Inr 0 \<and>
   map_sum id CurrentMR (loadState mgr0 (fst (Manager_Stop mgr0 busy_world))) =
     Inr (CurrentMR full_record) \<and>
   reachable mgr0 restarted_world \<and>
   loadState mgr0 restarted_world =
     Inr (zero_Refinery\<lparr>RigName := ''gastown'', State := StateStopped,
            StartedAt := Some 1700000000000000000\<rparr>) \<and>
   stopped_invariant (zero_Refinery\<lparr>RigName := ''gastown'', State := StateStopped,
            StartedAt := Some 1700000000000000000\<rparr>)"
proof -
  have d: "disk world0 = NotExist" by (simp add: world0_def)
  from lifecycle_records [of restarted_world mgr0] reachable_restarted_world
    load_restarted_world
  have j: "stopped_invariant (zero_Refinery\<lparr>RigName := ''gastown'', State := StateStopped,
            StartedAt := Some 1700000000000000000\<rparr>)"
    by auto
  from lifecycle_records [of world0 mgr0] d load_world0
  have i: "stopped_invariant (zero_Refinery\<lparr>RigName := ''gastown'', State := StateStopped\<rparr>)"
    by auto
  have s: "snd (Manager_Stop mgr0 busy_world) = None"
    using Stop_persists [OF busy_world_facts(1) full_record_facts(1) busy_world_facts(2,3)]
    by simp
  from lifecycle_records [of busy_world mgr0] busy_world_facts(1) s
  obtain r' where "loadState mgr0 (fst (Manager_Stop mgr0 busy_world)) = Inr r'"
    "State r' = StateStopped" "PID r' = 0" "CurrentMR r' = CurrentMR full_record"
    by blast
  with d load_world0 i busy_world_facts(1) s j reachable_restarted_world
    load_restarted_world show ?thesis by simp
qed

text \<open>
  C8 as stated fails for a Running record with a merge request in flight: Stop writes a
  Stopped record that still carries the request.
\<close>

theorem Stop_keeps_current_request_counterexample:
  "loadState mgr0 busy_world = Inr full_record \<and>
   snd (Manager_Stop mgr0 busy_world) = None \<and>
   loadState mgr0 (fst (Manager_Stop mgr0 busy_world)) =
     Inr (full_record\<lparr>State := StateStopped, PID := 0\<rparr>) \<and>
   State (full_record\<lparr>State := StateStopped, PID := 0\<rparr>) = StateStopped \<and>
   CurrentMR (full_record\<lparr>State := StateStopped, PID := 0\<rparr>) = Some sample_mr \<and>
   \<not> stopped_invariant (full_record\<lparr>State := StateStopped, PID := 0\<rparr>)"
  using Stop_persists [OF busy_world_facts(1) full_record_facts(1) busy_world_facts(2,3)]
    busy_world_facts(1) full_record_facts(2)
  by (simp add: stopped_invariant_def)

text \<open>
  C9, at an input where the code departs from it. For an age under 64 days the label is
  the whole number of seconds, minutes, hours or days, as the claim says
  (\<open>formatAge_under_64_days\<close>). A timestamp one nanosecond less than 171 days in the
  past is 170 whole days old: \<^verbatim>\<open>Duration.Hours\<close> adds 4103 and
  3599999999999 / 3600000000000 in binary64, where the sum rounds up to 4104, and
  \<open>formatAge\<close> answers 171 days.
\<close>

theorem formatAge_rounds_up_to_171_days:
  "time_Sub (clock world0 0) (clock world0 0 - (171 * 24 * Hour - 1)) = 171 * 24 * Hour - 1 \<and>
   (171 * 24 * Hour - 1) div (24 * Hour) = 170 \<and>
   Hours (171 * 24 * Hour - 1) = 4104 \<and>
   snd (formatAge world0 (clock world0 0 - (171 * 24 * Hour - 1))) = ''171d ago''"
  by code_simp

text \<open>
  C10. After every successful Start the record in the store carries the process
  identifier of the calling process, in background mode (Start returns no error) as in
  foreground mode (Start has saved the record and blocks in the processing loop): no
  other identifier is ever recorded.
\<close>

theorem Start_records_own_pid:
  assumes "snd (Manager_Start m foreground w) = Returned None \<or>
           snd (Manager_Start m foreground w) = Blocked"
  shows "\<exists>r'. loadState m (fst (Manager_Start m foreground w)) = Inr r' \<and> PID r' = self_pid w"
  using Start_success [OF assms] by (auto simp: coerce_Refinery_def)

theorem Start_records_own_pid_witness:
  "snd (Manager_Start mgr0 False world0) = Returned None \<and>
   snd (Manager_Start mgr0 True world0) = Blocked \<and>
   self_pid world0 = 100 \<and>
   map_sum id PID (loadState mgr0 (fst (Manager_Start mgr0 False world0))) = Inr 100 \<and>
   map_sum id PID (loadState mgr0 (fst (Manager_Start mgr0 True world0))) = Inr 100"
proof -
  have b: "snd (Manager_Start mgr0 False world0) = Returned None"
    using Start_world0 [of False] by simp
  have f: "snd (Manager_Start mgr0 True world0) = Blocked"
    using Start_world0 [of True] by simp
  have p: "self_pid world0 = 100" by (simp add: world0_def)
  from Start_records_own_pid [of mgr0 False world0] b p
  have 1: "map_sum id PID (loadState mgr0 (fst (Manager_Start mgr0 False world0))) = Inr 100"
    by auto
  from Start_records_own_pid [of mgr0 True world0] f p
  have 2: "map_sum id PID (loadState mgr0 (fst (Manager_Start mgr0 True world0))) = Inr 100"
    by auto
  from b f p 1 2 show ?thesis by simp
qed

end
